theory Spec2Isabelle
  imports Complex_Main
begin

unbundle bit_operations_syntax

section \<open>Python values\<close>

text \<open>
  A Python \<open>str\<close> is a sequence of Unicode code points: it is modelled as a list of
  natural numbers, and \<open>len\<close> is \<open>length\<close>. Python integers are \<open>int\<close>. The floating
  point numbers PyMuPDF reports (font sizes, coordinates) are modelled by the rational
  numbers they denote: the source only compares them, rounds them to an integer and
  halves a small integer, all of which are exact on the denoted values.
\<close>

type_synonym ustring = "nat list"

definition ustr :: "string \<Rightarrow> ustring" where
  "ustr s = map of_char s"

datatype py_error = IndexError | ValueError | TypeError | AttributeError

text \<open>\<open>str.isspace\<close> for one code point, which is also the class \<open>\s\<close> of \<open>re\<close>.\<close>

definition py_isspace :: "nat \<Rightarrow> bool" where
  "py_isspace c = ((9 \<le> c \<and> c \<le> 13) \<or> (28 \<le> c \<and> c \<le> 32) \<or> c = 133 \<or> c = 160
     \<or> c = 5760 \<or> (8192 \<le> c \<and> c \<le> 8202) \<or> c = 8232 \<or> c = 8233 \<or> c = 8239
     \<or> c = 8287 \<or> c = 12288)"

text \<open>\<open>round(x)\<close> of a float: to the nearest integer, a tie to the even one.\<close>

definition py_round :: "rat \<Rightarrow> int" where
  "py_round x =
     (let f = \<lfloor>x\<rfloor>; d = x - of_int f
      in if d < 1 / 2 then f else if 1 / 2 < d then f + 1 else if even f then f else f + 1)"

text \<open>\<open>list.index\<close>: the position of the first equal element, ValueError when there is none.\<close>

fun py_index :: "'a \<Rightarrow> 'a list \<Rightarrow> nat option" where
  "py_index x [] = None"
| "py_index x (y # ys) = (if y = x then Some 0 else map_option Suc (py_index x ys))"

text \<open>
  \<open>collections.Counter\<close> keeps its keys in the order of their first insertion;
  \<open>most_common(n)\<close> is the first \<open>n\<close> items of a stable sort by decreasing count.
\<close>

fun counter_add :: "'a \<Rightarrow> ('a \<times> nat) list \<Rightarrow> ('a \<times> nat) list" where
  "counter_add x [] = [(x, 1)]"
| "counter_add x ((k, c) # kcs) = (if k = x then (k, Suc c) # kcs else (k, c) # counter_add x kcs)"

definition Counter :: "'a list \<Rightarrow> ('a \<times> nat) list" where
  "Counter xs = fold counter_add xs []"

definition most_common :: "nat \<Rightarrow> ('a \<times> nat) list \<Rightarrow> ('a \<times> nat) list" where
  "most_common n kcs = take n (sort_key (\<lambda>kc. - int (snd kc)) kcs)"

text \<open>
  The Unicode character database of the Python build is not part of the repository. What
  the source asks of it beyond ASCII is taken as a parameter: the decimal digits
  (\<open>\d\<close>), the word characters (\<open>\w\<close>), the one-character lowercase mapping that
  \<open>re.IGNORECASE\<close> compares with, and \<open>str.lower\<close> and \<open>str.isupper\<close> on a string
  that holds a character beyond ASCII. On ASCII the functions below are Python's.
\<close>

record ucd =
  u_decimal :: "nat \<Rightarrow> bool"
  u_word :: "nat \<Rightarrow> bool"
  u_tolower :: "nat \<Rightarrow> nat"
  u_lower :: "ustring \<Rightarrow> ustring"
  u_isupper :: "ustring \<Rightarrow> bool"

definition is_ascii :: "ustring \<Rightarrow> bool" where
  "is_ascii s = list_all (\<lambda>c. c < 128) s"

definition ascii_lower :: "nat \<Rightarrow> nat" where
  "ascii_lower c = (if 65 \<le> c \<and> c \<le> 90 then c + 32 else c)"

definition is_digit :: "ucd \<Rightarrow> nat \<Rightarrow> bool" where
  "is_digit U c = (if c < 128 then 48 \<le> c \<and> c \<le> 57 else u_decimal U c)"

definition is_word :: "ucd \<Rightarrow> nat \<Rightarrow> bool" where
  "is_word U c =
     (if c < 128 then (48 \<le> c \<and> c \<le> 57) \<or> (65 \<le> c \<and> c \<le> 90) \<or> (97 \<le> c \<and> c \<le> 122) \<or> c = 95
      else u_word U c)"

definition sre_lower :: "ucd \<Rightarrow> nat \<Rightarrow> nat" where
  "sre_lower U c = (if c < 128 then ascii_lower c else u_tolower U c)"

definition py_lower :: "ucd \<Rightarrow> ustring \<Rightarrow> ustring" where
  "py_lower U s = (if is_ascii s then map ascii_lower s else u_lower U s)"

text \<open>\<open>str.isupper\<close>: some cased character, and no cased character that is not uppercase.\<close>

definition py_isupper :: "ucd \<Rightarrow> ustring \<Rightarrow> bool" where
  "py_isupper U s =
     (if is_ascii s then list_ex (\<lambda>c. 65 \<le> c \<and> c \<le> 90) s \<and> \<not> list_ex (\<lambda>c. 97 \<le> c \<and> c \<le> 122) s
      else u_isupper U s)"

text \<open>\<open>a in b\<close> for strings: \<open>a\<close> occurs in \<open>b\<close> as a contiguous piece.\<close>

fun contains :: "ustring \<Rightarrow> ustring \<Rightarrow> bool" where
  "contains a [] = (a = [])"
| "contains a (c # cs) = (take (length a) (c # cs) = a \<or> contains a cs)"

section \<open>Regular expressions\<close>

text \<open>
  The patterns of the source are values of \<open>re\<close>. \<open>ms r n st\<close> lists, in the order in
  which Python's backtracking matcher tries them, every way \<open>r\<close> can match at the front
  of the text still to read (\<open>fst st\<close>): each result is the text left after the match
  and the groups captured so far, the latest capture first. \<open>n\<close> is the length of the
  whole subject, which \<open>^\<close> needs. The head of the list is the match Python reports.
  A repetition runs its body at most once per remaining character, since an iteration
  that consumes nothing is cut off.
\<close>

type_synonym caps = "(nat \<times> ustring) list"
type_synonym mstate = "ustring \<times> caps"

datatype re =
    Chr "nat \<Rightarrow> bool"
  | Seq re re
  | Alt re re
  | Star re
  | Opt re
  | Grp nat re
  | Bol
  | Eol
  | Eps

fun iter :: "nat \<Rightarrow> (mstate \<Rightarrow> mstate list) \<Rightarrow> mstate \<Rightarrow> mstate list" where
  "iter 0 f st = [st]"
| "iter (Suc k) f st =
     concat (map (\<lambda>st'. if length (fst st') < length (fst st) then iter k f st' else []) (f st))
     @ [st]"

primrec ms :: "re \<Rightarrow> nat \<Rightarrow> mstate \<Rightarrow> mstate list" where
  "ms (Chr p) n st = (case fst st of [] \<Rightarrow> [] | c # cs \<Rightarrow> if p c then [(cs, snd st)] else [])"
| "ms (Seq a b) n st = concat (map (ms b n) (ms a n st))"
| "ms (Alt a b) n st = ms a n st @ ms b n st"
| "ms (Star a) n st = iter (length (fst st)) (ms a n) st"
| "ms (Opt a) n st = ms a n st @ [st]"
| "ms (Grp g a) n st =
     map (\<lambda>st'. (fst st', (g, take (length (fst st) - length (fst st')) (fst st)) # snd st'))
       (ms a n st)"
| "ms Bol n st = (if length (fst st) = n then [st] else [])"
| "ms Eol n st = (if fst st = [] \<or> fst st = [10] then [st] else [])"
| "ms Eps n st = [st]"

definition Plus :: "re \<Rightarrow> re" where
  "Plus r = Seq r (Star r)"

definition Lit :: "nat \<Rightarrow> re" where
  "Lit c = Chr (\<lambda>x. x = c)"

definition Str :: "ustring \<Rightarrow> re" where
  "Str s = foldr (\<lambda>c r. Seq (Lit c) r) s Eps"

definition OneOf :: "ustring \<Rightarrow> re" where
  "OneOf s = Chr (\<lambda>x. x \<in> set s)"

text \<open>\<open>re.match(r, s)\<close> as a truth value: is there a match at the start of \<open>s\<close>.\<close>

definition re_match :: "re \<Rightarrow> ustring \<Rightarrow> bool" where
  "re_match r s = (ms r (length s) (s, []) \<noteq> [])"

text \<open>
  \<open>re.sub(r, t, s)\<close>: the leftmost matches, one after the other, are replaced by the
  template, in which \<open>TRef g\<close> stands for \<open>\g\<close> (empty when the group took no part in
  the match). No pattern of the source matches the empty string; after an empty match
  the next character would be copied.
\<close>

datatype tmpl = TLit ustring | TRef nat

fun expand :: "tmpl list \<Rightarrow> caps \<Rightarrow> ustring" where
  "expand [] cs = []"
| "expand (TLit s # ts) cs = s @ expand ts cs"
| "expand (TRef g # ts) cs = (case map_of cs g of None \<Rightarrow> [] | Some t \<Rightarrow> t) @ expand ts cs"

function re_sub_from :: "re \<Rightarrow> tmpl list \<Rightarrow> nat \<Rightarrow> ustring \<Rightarrow> ustring" where
  "re_sub_from r t n s =
     (case ms r n (s, []) of
        [] \<Rightarrow> (case s of [] \<Rightarrow> [] | c # cs \<Rightarrow> c # re_sub_from r t n cs)
      | m # _ \<Rightarrow>
          if length (fst m) < length s then expand t (snd m) @ re_sub_from r t n (fst m)
          else expand t (snd m) @ (case s of [] \<Rightarrow> [] | c # cs \<Rightarrow> c # re_sub_from r t n cs))"
  by pat_completeness auto
termination
  by (relation "measure (\<lambda>(r, t, n, s). length s)") auto

declare re_sub_from.simps [simp del]

definition re_sub :: "re \<Rightarrow> tmpl list \<Rightarrow> ustring \<Rightarrow> ustring" where
  "re_sub r t s = re_sub_from r t (length s) s"

text \<open>
  Building blocks of the patterns. Under \<open>re.IGNORECASE\<close> a letter of the pattern
  matches a character whose one-character lowercase is the letter's, or one of the two
  further characters the \<open>re\<close> compiler adds for \<open>i\<close> (U+0131) and \<open>s\<close> (U+017F).
\<close>

definition seq :: "re list \<Rightarrow> re" where
  "seq rs = foldr Seq rs Eps"

definition dot :: re where
  "dot = Chr (\<lambda>c. c \<noteq> 10)"

definition cls_space :: re where
  "cls_space = Chr py_isspace"

definition cls_digit :: "ucd \<Rightarrow> re" where
  "cls_digit U = Chr (is_digit U)"

definition ci_fix :: "nat \<Rightarrow> ustring" where
  "ci_fix x =
     (let lo = ascii_lower x
      in if lo = 105 then [lo, 305] else if lo = 115 then [lo, 383] else [lo])"

definition ci_cls :: "ucd \<Rightarrow> ustring \<Rightarrow> re" where
  "ci_cls U s = Chr (\<lambda>c. sre_lower U c \<in> set (concat (map ci_fix s)))"

definition ci_str :: "ucd \<Rightarrow> ustring \<Rightarrow> re" where
  "ci_str U s = seq (map (\<lambda>x. ci_cls U [x]) s)"

section \<open>The document as PyMuPDF presents it\<close>

text \<open>
  A page has a height (\<open>page.rect.height\<close>) and \<open>page.get_text("dict")["blocks"]\<close>,
  a list of blocks with a type (1 for an image) and a bounding box \<open>(x0, y0, x1, y1)\<close>,
  \<open>doc.metadata["format"]\<close> names the file format; a block may have no \<open>lines\<close>
  entry (an image block) and the source reads it with \<open>block.get("lines", [])\<close>, and a
  line's spans with \<open>line.get("spans", [])\<close>. \<open>doc.get_toc()\<close> is the embedded outline,
  a list of \<open>[level, title, page]\<close>, and \<open>doc.page_count\<close> the number of pages.
\<close>

record span =
  s_text :: ustring
  s_font :: ustring
  s_size :: rat
  s_flags :: int

record line =
  l_spans :: "span list option"

record block =
  b_type :: int
  b_bbox :: "rat \<times> rat \<times> rat \<times> rat"
  b_lines :: "line list option"

record page =
  p_height :: rat
  p_blocks :: "block list"

record document =
  d_toc :: "(int \<times> ustring \<times> int) list"
  d_pages :: "page list"
  d_format :: ustring

definition page_count :: "document \<Rightarrow> int" where
  "page_count doc = int (length (d_pages doc))"

definition get_lines :: "block \<Rightarrow> line list" where
  "get_lines b = (case b_lines b of None \<Rightarrow> [] | Some ls \<Rightarrow> ls)"

definition get_spans :: "line \<Rightarrow> span list" where
  "get_spans l = (case l_spans l of None \<Rightarrow> [] | Some ss \<Rightarrow> ss)"

section \<open>TextExtractor.get_toc\<close>

type_synonym entry = "int \<times> ustring \<times> int \<times> int"

definition e_level :: "entry \<Rightarrow> int" where "e_level e = fst e"
definition e_title :: "entry \<Rightarrow> ustring" where "e_title e = fst (snd e)"
definition e_start :: "entry \<Rightarrow> int" where "e_start e = fst (snd (snd e))"
definition e_end :: "entry \<Rightarrow> int" where "e_end e = snd (snd (snd e))"

definition o_level :: "int \<times> ustring \<times> int \<Rightarrow> int" where "o_level it = fst it"
definition o_title :: "int \<times> ustring \<times> int \<Rightarrow> ustring" where "o_title it = fst (snd it)"
definition o_page :: "int \<times> ustring \<times> int \<Rightarrow> int" where "o_page it = snd (snd it)"

text \<open>
  The inner loop \<open>for j in range(i + 1, len(toc))\<close>, run over the items after the
  \<open>i\<close>-th: the page of the first one whose level is at most \<open>level\<close>, then \<open>break\<close>;
  \<open>end_page\<close> as it was set before the loop when there is none.
\<close>

fun look_ahead :: "int \<Rightarrow> int \<Rightarrow> (int \<times> ustring \<times> int) list \<Rightarrow> int" where
  "look_ahead level end_page [] = end_page"
| "look_ahead level end_page ((next_level, _, next_start) # rest) =
     (if next_level \<le> level then next_start else look_ahead level end_page rest)"

text \<open>
  The three nested \<open>re.sub\<close> calls on the title: \<open>\r\<close> is deleted, then runs of the
  three characters U+00AD U+00A0 \<open>]\<close>, then every run of the eleven characters U+2000
  to U+200A in this order becomes one space.
\<close>

definition clean_title :: "ustring \<Rightarrow> ustring" where
  "clean_title title =
     re_sub (Plus (Grp 1 (Str [8192 ..< 8203]))) [TLit [32]]
       (re_sub (Plus (Grp 1 (Str [173, 160, 93]))) []
         (re_sub (Lit 13) [] title))"

function toc_loop :: "(int \<times> ustring \<times> int) list \<Rightarrow> int \<Rightarrow> nat \<Rightarrow> entry list \<Rightarrow> entry list" where
  "toc_loop toc pc i toc_with_end =
     (if i < length toc then
        (case toc ! i of (level, title, start_page) \<Rightarrow>
           toc_loop toc pc (Suc i)
             (toc_with_end @
                [(level, clean_title title, start_page, look_ahead level pc (drop (Suc i) toc))]))
      else toc_with_end)"
  by pat_completeness auto
termination
  by (relation "measure (\<lambda>(toc, pc, i, acc). length toc - i)") auto

declare toc_loop.simps [simp del]

definition get_toc :: "document \<Rightarrow> entry list" where
  "get_toc doc = toc_loop (d_toc doc) (page_count doc) 0 []"

section \<open>TextExtractor.get_children and get_next_section\<close>

text \<open>
  \<open>self.toc\<close> is the list \<open>get_toc\<close> returned. Both functions scan
  \<open>self.toc[self.toc.index(section) + 1:]\<close>: \<open>list.index\<close> finds the first entry equal
  to \<open>section\<close> and raises ValueError when there is none. In \<open>get_children\<close> an entry of
  greater level is appended, an entry of the same level ends the loop, and an entry of
  smaller level is passed over: the loop goes on after it.
\<close>

fun children_loop :: "int \<Rightarrow> entry list \<Rightarrow> entry list \<Rightarrow> entry list" where
  "children_loop level [] subsections = subsections"
| "children_loop level (sec # rest) subsections =
     (if e_level sec > level then children_loop level rest (subsections @ [sec])
      else if e_level sec = level then subsections
      else children_loop level rest subsections)"

definition get_children :: "entry list \<Rightarrow> entry \<Rightarrow> py_error + entry list" where
  "get_children toc section =
     (case py_index section toc of
        None \<Rightarrow> Inl ValueError
      | Some i \<Rightarrow> Inr (children_loop (e_level section) (drop (i + 1) toc) []))"

fun next_loop :: "int \<Rightarrow> entry list \<Rightarrow> entry option" where
  "next_loop level [] = None"
| "next_loop level (sec # rest) = (if e_level sec \<le> level then Some sec else next_loop level rest)"

definition get_next_section :: "entry list \<Rightarrow> entry \<Rightarrow> py_error + entry option" where
  "get_next_section toc section =
     (case py_index section toc of
        None \<Rightarrow> Inl ValueError
      | Some i \<Rightarrow> Inr (next_loop (e_level section) (drop (i + 1) toc)))"

section \<open>TextExtractor.get_main_size and get_main_font\<close>

text \<open>
  The pattern \<open>[\s\t]+\<close>. \<open>re.match\<close> anchors it at the start of the span's text, so
  \<open>not re.match(...)\<close> lets a span through when its text does not start with a
  whitespace character.
\<close>

definition ws_plus :: re where
  "ws_plus = Plus (Chr (\<lambda>c. py_isspace c \<or> c = 9))"

text \<open>The four nested loops over pages, blocks, lines and spans, appending to a list.\<close>

definition font_sizes :: "document \<Rightarrow> int list" where
  "font_sizes doc =
     fold (\<lambda>page acc.
       fold (\<lambda>block acc.
         fold (\<lambda>line acc.
           fold (\<lambda>span acc.
             if \<not> re_match ws_plus (s_text span) then acc @ [py_round (s_size span)] else acc)
           (get_spans line) acc)
         (get_lines block) acc)
       (p_blocks page) acc)
     (d_pages doc) []"

text \<open>
  \<open>dominant_size = size_count.most_common(2)\<close>; the condition reads
  \<open>dominant_size[1][0]\<close> first, which raises IndexError when fewer than two sizes were
  counted. \<open>dominant_size[0][0]\<close> is the most frequent size itself, so the second
  conjunct compares the count of the second size with half the first size.
\<close>

definition get_main_size :: "document \<Rightarrow> py_error + int" where
  "get_main_size doc =
     (let size_count = Counter (font_sizes doc);
          dominant_size = most_common 2 size_count
      in case dominant_size of
           d0 # d1 # _ \<Rightarrow>
             if fst d1 > fst d0 \<and> (of_nat (snd d1) :: rat) > of_int (fst d0) / 2
             then Inr (fst d1) else Inr (fst d0)
         | _ \<Rightarrow> Inl IndexError)"

definition fonts :: "document \<Rightarrow> ustring list" where
  "fonts doc =
     fold (\<lambda>page acc.
       fold (\<lambda>block acc.
         fold (\<lambda>line acc.
           fold (\<lambda>span acc.
             if \<not> re_match ws_plus (s_text span) then acc @ [s_font span] else acc)
           (get_spans line) acc)
         (get_lines block) acc)
       (p_blocks page) acc)
     (d_pages doc) []"

definition get_main_font :: "document \<Rightarrow> py_error + ustring" where
  "get_main_font doc =
     (case most_common 1 (Counter (fonts doc)) of
        [] \<Rightarrow> Inl IndexError
      | dominant_font # _ \<Rightarrow> Inr (fst dominant_font))"

text \<open>
  Vocabulary for the statements: all spans of a document in reading order, and a text
  that starts with a whitespace character.
\<close>

definition all_spans :: "document \<Rightarrow> span list" where
  "all_spans doc =
     concat (map (\<lambda>page. concat (map (\<lambda>block. concat (map get_spans (get_lines block))) (p_blocks page)))
       (d_pages doc))"

definition starts_with_space :: "ustring \<Rightarrow> bool" where
  "starts_with_space t = (case t of [] \<Rightarrow> False | c # _ \<Rightarrow> py_isspace c)"

section \<open>TOCExtractor._is_potential_heading and _determine_heading_level\<close>

text \<open>
  \<open>font_stats\<close> is the dictionary built by \<open>_analyze_font_characteristics\<close>; the two
  functions read it with \<open>font_stats.get('median_size', 12)\<close> and
  \<open>font_stats.get('large_sizes', [])\<close>.
\<close>

record font_stats =
  fs_median_size :: "rat option"
  fs_large_sizes :: "rat list option"

definition median_size :: "font_stats \<Rightarrow> rat" where
  "median_size fs = (case fs_median_size fs of None \<Rightarrow> 12 | Some m \<Rightarrow> m)"

definition large_sizes :: "font_stats \<Rightarrow> rat list" where
  "large_sizes fs = (case fs_large_sizes fs of None \<Rightarrow> [] | Some ls \<Rightarrow> ls)"

text \<open>
  \<open>self.heading_patterns\<close>, each matched with \<open>re.IGNORECASE\<close>:
  \<^verbatim>\<open>^(Chapter|CHAPTER)\s+(\d+|[IVXLCDM]+)[\s\.\-:]*(.*)$\<close>,
  \<^verbatim>\<open>^(\d+)[\.\)]\s+(.+)$\<close>,
  \<^verbatim>\<open>^(\d+\.\d+)[\.\)]\s+(.+)$\<close>,
  \<^verbatim>\<open>^([IVXLCDM]+)[\.\)\s]+(.+)$\<close>,
  \<^verbatim>\<open>^(PART|Part)\s+(\d+|[IVXLCDM]+)[\s\.\-:]*(.*)$\<close>,
  \<^verbatim>\<open>^(Section|SECTION)\s+(\d+)[\s\.\-:]*(.*)$\<close>.
\<close>

definition sep_cls :: re where
  "sep_cls = Chr (\<lambda>c. py_isspace c \<or> c \<in> set (ustr ''.-:''))"

definition roman_cls :: "ucd \<Rightarrow> re" where
  "roman_cls U = ci_cls U (ustr ''IVXLCDM'')"

definition heading_patterns :: "ucd \<Rightarrow> re list" where
  "heading_patterns U =
     [seq [Bol, Grp 1 (Alt (ci_str U (ustr ''Chapter'')) (ci_str U (ustr ''CHAPTER''))),
           Plus cls_space, Grp 2 (Alt (Plus (cls_digit U)) (Plus (roman_cls U))),
           Star sep_cls, Grp 3 (Star dot), Eol],
      seq [Bol, Grp 1 (Plus (cls_digit U)), OneOf (ustr ''.)''), Plus cls_space,
           Grp 2 (Plus dot), Eol],
      seq [Bol, Grp 1 (seq [Plus (cls_digit U), Lit 46, Plus (cls_digit U)]), OneOf (ustr ''.)''),
           Plus cls_space, Grp 2 (Plus dot), Eol],
      seq [Bol, Grp 1 (Plus (roman_cls U)), Plus (Chr (\<lambda>c. c \<in> set (ustr ''.)'') \<or> py_isspace c)),
           Grp 2 (Plus dot), Eol],
      seq [Bol, Grp 1 (Alt (ci_str U (ustr ''PART'')) (ci_str U (ustr ''Part''))),
           Plus cls_space, Grp 2 (Alt (Plus (cls_digit U)) (Plus (roman_cls U))),
           Star sep_cls, Grp 3 (Star dot), Eol],
      seq [Bol, Grp 1 (Alt (ci_str U (ustr ''Section'')) (ci_str U (ustr ''SECTION''))),
           Plus cls_space, Grp 2 (Plus (cls_digit U)), Star sep_cls, Grp 3 (Star dot), Eol]]"

definition heading_keywords :: "ustring list" where
  "heading_keywords = map ustr
     [''chapter'', ''section'', ''part'', ''introduction'', ''conclusion'',
      ''appendix'', ''bibliography'', ''references'', ''index'', ''abstract'',
      ''summary'', ''overview'', ''background'', ''methodology'', ''results'',
      ''discussion'', ''acknowledgments'', ''preface'', ''foreword'']"

text \<open>\<open>any(re.match(pattern, text, re.IGNORECASE) for pattern in self.heading_patterns)\<close>.\<close>

definition pattern_match :: "ucd \<Rightarrow> ustring \<Rightarrow> bool" where
  "pattern_match U text = list_ex (\<lambda>pattern. re_match pattern text) (heading_patterns U)"

definition keyword_match :: "ucd \<Rightarrow> ustring \<Rightarrow> bool" where
  "keyword_match U text = list_ex (\<lambda>keyword. contains keyword (py_lower U text)) heading_keywords"

text \<open>\<^verbatim>\<open>^\d+(\.\d+)*[\.\)\s]\<close> and, with \<open>re.IGNORECASE\<close>, \<^verbatim>\<open>^[IVXLCDM]+[\.\)\s]\<close>.\<close>

definition numeric_start :: "ucd \<Rightarrow> ustring \<Rightarrow> bool" where
  "numeric_start U text =
     re_match (seq [Bol, Plus (cls_digit U), Star (Grp 1 (Seq (Lit 46) (Plus (cls_digit U)))),
                    Chr (\<lambda>c. c \<in> set (ustr ''.)'') \<or> py_isspace c)]) text"

definition roman_start :: "ucd \<Rightarrow> ustring \<Rightarrow> bool" where
  "roman_start U text =
     re_match (seq [Bol, Plus (roman_cls U), Chr (\<lambda>c. c \<in> set (ustr ''.)'') \<or> py_isspace c)]) text"

text \<open>The scoring part of \<open>_is_potential_heading\<close>: the value of \<open>score\<close> at the return.\<close>

definition heading_score :: "ucd \<Rightarrow> ustring \<Rightarrow> span \<Rightarrow> font_stats \<Rightarrow> int" where
  "heading_score U text sp fs =
     (let size = s_size sp;
          flags = s_flags sp;
          is_bold = flags AND 2 ^ 4;
          is_italic = flags AND 2 ^ 1;
          is_caps = (py_isupper U text \<and> length text < 50)
      in (if size > median_size fs then 2 else 0)
       + (if is_bold \<noteq> 0 then 2 else 0)
       + (if is_italic \<noteq> 0 then 1 else 0)
       + (if pattern_match U text then 3 else 0)
       + (if keyword_match U text then 2 else 0)
       + (if numeric_start U text then 2 else 0)
       + (if roman_start U text then 2 else 0)
       + (if is_caps then 1 else 0))"

definition is_potential_heading :: "ucd \<Rightarrow> ustring \<Rightarrow> span \<Rightarrow> font_stats \<Rightarrow> bool" where
  "is_potential_heading U text sp fs =
     (if text = [] \<or> length text < 3 then False
      else if length text > 200 then False
      else if s_size sp \<le> median_size fs \<and> \<not> pattern_match U text then False
      else heading_score U text sp fs \<ge> 3)"

text \<open>
  \<open>_determine_heading_level\<close>: the level from the size, then the adjustment by
  \<^verbatim>\<open>^(Chapter|CHAPTER|Part|PART)\<close>, \<^verbatim>\<open>^\d+\.\d+\.\d+\<close>, \<^verbatim>\<open>^\d+\.\d+\<close> and
  \<^verbatim>\<open>^\d+[\.\)]\<close>, tried in this order and matched as they are written.
\<close>

definition size_level :: "rat \<Rightarrow> rat list \<Rightarrow> int" where
  "size_level sz ls =
     (if ls \<noteq> [] then
        (if sz \<ge> ls ! 0 then 1
         else if length ls > 1 \<and> sz \<ge> ls ! 1 then 2
         else if length ls > 2 \<and> sz \<ge> ls ! 2 then 3
         else 4)
      else 2)"

definition determine_heading_level :: "ucd \<Rightarrow> ustring \<Rightarrow> span \<Rightarrow> font_stats \<Rightarrow> int" where
  "determine_heading_level U text sp fs =
     (let level = size_level (s_size sp) (large_sizes fs);
          d = Plus (cls_digit U);
          level =
            (if re_match (seq [Bol, Grp 1 (Alt (Str (ustr ''Chapter'')) (Alt (Str (ustr ''CHAPTER''))
                                 (Alt (Str (ustr ''Part'')) (Str (ustr ''PART'')))))]) text
             then min level 1
             else if re_match (seq [Bol, d, Lit 46, d, Lit 46, d]) text then max level 3
             else if re_match (seq [Bol, d, Lit 46, d]) text then max level 2
             else if re_match (seq [Bol, d, OneOf (ustr ''.)'')]) text then max level 1
             else level)
      in max 1 (min level 6))"

section \<open>text_extract of the utils module\<close>

text \<open>
  \<open>pipeline.py\<close> imports \<open>text_extract\<close> from the module \<open>utils\<close> and calls it as
  \<open>text_extract(self.doc, sections)\<close>; the text of that module is
  \<open>src/app/.ipynb_checkpoints/utils-checkpoint.py\<close>. Its functions are module-level
  functions of the document, prefixed here with \<open>utils_\<close> where the class
  \<open>TextExtractor\<close> has a method of the same name.
  The method \<open>text_extract\<close> of \<open>TextExtractor\<close> is written inside the body of
  \<open>get_span\<close>, after its \<open>return\<close>: it is bound to no name of the class, and no call
  reaches it.

  \<open>str.strip()\<close> removes the whitespace at both ends.
\<close>

definition strip_chars :: "(nat \<Rightarrow> bool) \<Rightarrow> ustring \<Rightarrow> ustring" where
  "strip_chars P s = rev (dropWhile P (rev (dropWhile P s)))"

definition py_strip :: "ustring \<Rightarrow> ustring" where
  "py_strip s = strip_chars py_isspace s"

text \<open>
  A section handed to \<open>text_extract\<close> is a sequence of which the function reads the
  first element, \<open>section[0]\<close>: a string, or the integer level when the section is an
  entry of the ToC, as the sections the GUI collects are.
\<close>

datatype pyval = PInt int | PStr ustring

type_synonym py_section = "pyval \<times> pyval list"

text \<open>\<open>main_text[key] = value\<close> on a dict, which keeps its keys in insertion order.\<close>

fun dict_set :: "'k \<Rightarrow> 'v \<Rightarrow> ('k \<times> 'v) list \<Rightarrow> ('k \<times> 'v) list" where
  "dict_set k v [] = [(k, v)]"
| "dict_set k v ((k', v') # d) = (if k' = k then (k', v) # d else (k', v') # dict_set k v d)"

text \<open>A loop whose body may raise: the first error ends it.\<close>

fun fold_err :: "('a \<Rightarrow> 's \<Rightarrow> py_error + 's) \<Rightarrow> 'a list \<Rightarrow> 's \<Rightarrow> py_error + 's" where
  "fold_err f [] s = Inr s"
| "fold_err f (x # xs) s = (case f x s of Inl e \<Rightarrow> Inl e | Inr s' \<Rightarrow> fold_err f xs s')"

text \<open>\<open>get_toc(doc)\<close> of the module: as the method, without the cleaning of the title.\<close>

fun utils_toc_loop :: "int \<Rightarrow> (int \<times> ustring \<times> int) list \<Rightarrow> entry list" where
  "utils_toc_loop pc [] = []"
| "utils_toc_loop pc ((level, title, start_page) # rest) =
     (level, title, start_page, look_ahead level pc rest) # utils_toc_loop pc rest"

definition utils_get_toc :: "document \<Rightarrow> entry list" where
  "utils_get_toc doc = utils_toc_loop (page_count doc) (d_toc doc)"

text \<open>
  \<open>get_main_font(doc)\<close> of the module counts the size of every span as PyMuPDF reports
  it and rounds the size it selects.
\<close>

definition utils_font_sizes :: "document \<Rightarrow> rat list" where
  "utils_font_sizes doc =
     fold (\<lambda>page acc.
       fold (\<lambda>block acc.
         fold (\<lambda>line acc.
           fold (\<lambda>span acc. acc @ [s_size span])
           (get_spans line) acc)
         (get_lines block) acc)
       (p_blocks page) acc)
     (d_pages doc) []"

definition utils_get_main_font :: "document \<Rightarrow> py_error + int" where
  "utils_get_main_font doc =
     (let font_count = Counter (utils_font_sizes doc);
          dominant_fonts = most_common 2 font_count
      in case dominant_fonts of
           d0 # d1 # _ \<Rightarrow>
             if fst d1 > fst d0 \<and> (of_nat (snd d1) :: rat) > fst d0 / 2
             then Inr (py_round (fst d1)) else Inr (py_round (fst d0))
         | _ \<Rightarrow> Inl IndexError)"

text \<open>
  \<open>info_extract(doc)\<close>: the ToC, the height of the first page (\<open>doc[0]\<close> raises
  IndexError on a document without pages), the frame of 50 points and the main font size.
\<close>

definition utils_info_extract :: "document \<Rightarrow> py_error + (entry list \<times> rat \<times> rat \<times> int)" where
  "utils_info_extract doc =
     (let toc = utils_get_toc doc
      in case d_pages doc of
           [] \<Rightarrow> Inl IndexError
         | page0 # _ \<Rightarrow>
             (let pheight = p_height page0; pframe = 50
              in case utils_get_main_font doc of
                   Inl e \<Rightarrow> Inl e
                 | Inr main_font \<Rightarrow> Inr (toc, pheight, pframe, main_font)))"

text \<open>
  The statement under \<open># Repairing lines\<close>: the text of the span is appended to the
  value, directly when the value is longer than one character and ends with a hyphen or
  one of the ligatures U+FB01 and U+FB02, or when the text is one of these ligatures, and
  after a space otherwise.
\<close>

definition repair :: "ustring \<Rightarrow> ustring \<Rightarrow> ustring" where
  "repair value text =
     (if (length value > 1 \<and> (last value = 45 \<or> last value = 64257 \<or> last value = 64258))
         \<or> (text = [64257] \<or> text = [64258])
      then value @ text else value @ [32] @ text)"

text \<open>The body of \<open>for span in line.get("spans", [])\<close>: two \<open>if\<close> statements in a row.\<close>

definition utils_span :: "int \<Rightarrow> ustring \<Rightarrow> span \<Rightarrow> ustring \<Rightarrow> ustring" where
  "utils_span main_font key sp value =
     (let value = (if (py_round (s_size sp) = main_font \<and> key \<noteq> ustr ''materials and methods'')
                      \<and> key \<noteq> []
                   then repair value (s_text sp) else value)
      in if py_round (s_size sp) \<ge> main_font - 1 \<and> py_round (s_size sp) \<le> main_font
            \<and> key = ustr ''materials and methods''
         then repair value (s_text sp) else value)"

text \<open>
  The nine substitutions made at the end of a block, each on \<open>value.strip()\<close>: the
  patterns \<open>(;\s)?\[\s(\d(\s,\s+)?)+\s\]\<close> and \<open>(;\s)?\[\s\d+\s-\s\d+\s\]\<close> (whose dash
  is U+2013) are deleted, then \<open>\s,\s\<close>, \<open>\s\.\s\<close>, \<open>\(\s\<close>, \<open>\s\)\<close> and \<open>\s+\<close> are
  replaced by \<open>, \<close>, \<open>. \<close>, \<open>(\<close>, \<open>)\<close> and one space, and the two ligatures by
  \<open>fi\<close> and \<open>fl\<close>.
\<close>

definition utils_post :: "ucd \<Rightarrow> ustring \<Rightarrow> ustring" where
  "utils_post U value0 =
     (let value1 = re_sub (seq [Opt (Grp 1 (seq [Lit 59, cls_space])), Lit 91, cls_space,
                                Plus (Grp 2 (seq [cls_digit U,
                                                  Opt (Grp 3 (seq [cls_space, Lit 44, Plus cls_space]))])),
                                cls_space, Lit 93]) [] (py_strip value0);
          value2 = re_sub (seq [Opt (Grp 1 (seq [Lit 59, cls_space])), Lit 91, cls_space,
                                Plus (cls_digit U), cls_space, Lit 8211, cls_space,
                                Plus (cls_digit U), cls_space, Lit 93]) [] (py_strip value1);
          value3 = re_sub (seq [cls_space, Lit 44, cls_space]) [TLit (ustr '', '')] (py_strip value2);
          value4 = re_sub (seq [cls_space, Lit 46, cls_space]) [TLit (ustr ''. '')] (py_strip value3);
          value5 = re_sub (seq [Lit 40, cls_space]) [TLit (ustr ''('')] (py_strip value4);
          value6 = re_sub (seq [cls_space, Lit 41]) [TLit (ustr '')'')] (py_strip value5);
          value7 = re_sub (Plus cls_space) [TLit (ustr '' '')] (py_strip value6);
          value8 = re_sub (Lit 64257) [TLit (ustr ''fi'')] (py_strip value7);
          value9 = re_sub (Lit 64258) [TLit (ustr ''fl'')] (py_strip value8)
      in value9)"

text \<open>
  The captions \<open>Fig(ure)?\.(\s)?(\d+)?(\w+)?(\s+)?:\<close> and
  \<open>Table(\s)?(\d+)?(\w+)?(\s+)?:\<close>, tried with \<open>re.match\<close> on the first span of a line.
\<close>

definition cls_word :: "ucd \<Rightarrow> re" where
  "cls_word U = Chr (is_word U)"

definition fig_caption :: "ucd \<Rightarrow> re" where
  "fig_caption U =
     seq [Str (ustr ''Fig''), Opt (Grp 1 (Str (ustr ''ure''))), Lit 46, Opt (Grp 2 cls_space),
          Opt (Grp 3 (Plus (cls_digit U))), Opt (Grp 4 (Plus (cls_word U))),
          Opt (Grp 5 (Plus cls_space)), Lit 58]"

definition table_caption :: "ucd \<Rightarrow> re" where
  "table_caption U =
     seq [Str (ustr ''Table''), Opt (Grp 1 cls_space), Opt (Grp 2 (Plus (cls_digit U))),
          Opt (Grp 3 (Plus (cls_word U))), Opt (Grp 4 (Plus cls_space)), Lit 58]"

text \<open>
  The body of \<open>for line in block.get("lines", [])\<close> on the pair of \<open>key\<close> and \<open>value\<close>.
  \<open>line.get("spans", [])[0]\<close> raises IndexError on a line without spans. A first span
  whose lowercase text is the first element of a section starts that section; the
  \<open>elif\<close> builds the list \<open>[section[0].lower() == "references" ...]\<close>, which raises
  AttributeError when the first element of a section is an integer; a caption ends the
  loop over the lines of the block.
\<close>

datatype 'a ctl = Next 'a | Break 'a

definition lower_is :: "ucd \<Rightarrow> ustring \<Rightarrow> pyval \<Rightarrow> py_error + bool" where
  "lower_is U t v = (case v of PInt i \<Rightarrow> Inl AttributeError | PStr s \<Rightarrow> Inr (py_lower U s = t))"

definition utils_line ::
  "ucd \<Rightarrow> int \<Rightarrow> py_section list \<Rightarrow> line \<Rightarrow> ustring \<times> ustring \<Rightarrow> py_error + (ustring \<times> ustring) ctl" where
  "utils_line U main_font sections lin kv =
     (case get_spans lin of
        [] \<Rightarrow> Inl IndexError
      | s0 # _ \<Rightarrow>
          if PStr (py_lower U (s_text s0)) \<in> set (map fst sections)
          then Inr (Next (py_lower U (s_text s0), []))
          else (case fold_err (\<lambda>sec acc. case lower_is U (ustr ''references'') (fst sec) of
                                            Inl e \<Rightarrow> Inl e | Inr b \<Rightarrow> Inr (acc @ [b])) sections [] of
                  Inl e \<Rightarrow> Inl e
                | Inr tests \<Rightarrow>
                    if \<not> list_ex (\<lambda>b. b) tests \<and> py_lower U (s_text s0) = ustr ''references''
                    then Inr (Next (ustr ''references'', []))
                    else if re_match (fig_caption U) (s_text s0) \<or> re_match (table_caption U) (s_text s0)
                    then Inr (Break kv)
                    else Inr (Next (fst kv, fold (utils_span main_font (fst kv)) (get_spans lin) (snd kv)))))"

fun utils_lines ::
  "ucd \<Rightarrow> int \<Rightarrow> py_section list \<Rightarrow> line list \<Rightarrow> ustring \<times> ustring \<Rightarrow> py_error + (ustring \<times> ustring)" where
  "utils_lines U main_font sections [] kv = Inr kv"
| "utils_lines U main_font sections (lin # rest) kv =
     (case utils_line U main_font sections lin kv of
        Inl e \<Rightarrow> Inl e
      | Inr (Break kv') \<Rightarrow> Inr kv'
      | Inr (Next kv') \<Rightarrow> utils_lines U main_font sections rest kv')"

text \<open>
  The body of \<open>for block in blocks\<close> on \<open>main_text\<close>, \<open>key\<close> and \<open>value\<close>: the lines
  of a block that lies inside the frame, whatever the format of the document, then the
  substitutions and the assignment to \<open>main_text[key]\<close> when neither \<open>key\<close> nor \<open>value\<close>
  is empty.
\<close>

type_synonym utils_state = "(ustring \<times> ustring) list \<times> ustring \<times> ustring"

definition utils_block ::
  "ucd \<Rightarrow> rat \<Rightarrow> rat \<Rightarrow> int \<Rightarrow> py_section list \<Rightarrow> block \<Rightarrow> utils_state \<Rightarrow> py_error + utils_state" where
  "utils_block U pheight pframe main_font sections blk st =
     (case st of (main_text, key, value) \<Rightarrow>
        (case (case b_bbox blk of (x0, y0, x1, y1) \<Rightarrow>
                 if y0 > pframe \<and> y1 < pheight - pframe
                 then utils_lines U main_font sections (get_lines blk) (key, value)
                 else Inr (key, value)) of
           Inl e \<Rightarrow> Inl e
         | Inr (key', value') \<Rightarrow>
             if key' \<noteq> [] \<and> value' \<noteq> []
             then (let value'' = utils_post U value'
                   in Inr (dict_set key' value'' main_text, key', value''))
             else Inr (main_text, key', value')))"

definition utils_text_extract ::
  "ucd \<Rightarrow> document \<Rightarrow> py_section list \<Rightarrow> py_error + (ustring \<times> ustring) list" where
  "utils_text_extract U doc sections =
     (case utils_info_extract doc of
        Inl e \<Rightarrow> Inl e
      | Inr (toc, pheight, pframe, main_font) \<Rightarrow>
          (let pblocks = map p_blocks (d_pages doc)
           in case fold_err (\<lambda>blocks. fold_err (utils_block U pheight pframe main_font sections) blocks)
                     pblocks ([], [], []) of
                Inl e \<Rightarrow> Inl e
              | Inr (main_text, key, value) \<Rightarrow> Inr main_text))"

text \<open>
  Vocabulary for the statements: a pattern none of whose character tests accepts the
  character \<open>c\<close>, and a template of literal pieces that do not hold it.
\<close>

primrec avoids :: "nat \<Rightarrow> re \<Rightarrow> bool" where
  "avoids c (Chr p) = (\<not> p c)"
| "avoids c (Seq a b) = (avoids c a \<and> avoids c b)"
| "avoids c (Alt a b) = (avoids c a \<and> avoids c b)"
| "avoids c (Star a) = avoids c a"
| "avoids c (Opt a) = avoids c a"
| "avoids c (Grp g a) = avoids c a"
| "avoids c Bol = True"
| "avoids c Eol = True"
| "avoids c Eps = True"

fun tmpl_avoids :: "nat \<Rightarrow> tmpl list \<Rightarrow> bool" where
  "tmpl_avoids c [] = True"
| "tmpl_avoids c (TLit s # ts) = (c \<notin> set s \<and> tmpl_avoids c ts)"
| "tmpl_avoids c (TRef g # ts) = False"

definition hyphens :: "ustring \<Rightarrow> ustring" where
  "hyphens s = filter (\<lambda>c. c = 45) s"

section \<open>Example documents\<close>

text \<open>A nine-page document with a three-item outline, and one whose outline goes backwards.\<close>

definition doc1 :: document where
  "doc1 = \<lparr> d_toc = [(1, ustr ''Intro'', 1), (2, ustr ''Aims'', 2), (1, ustr ''Methods'', 5)],
            d_pages = replicate 9 \<lparr> p_height = 842, p_blocks = [] \<rparr>, d_format = ustr ''PDF 1.7'' \<rparr>"

definition doc2 :: document where
  "doc2 = \<lparr> d_toc = [(1, ustr ''Results'', 5), (1, ustr ''Cover'', 2)],
            d_pages = replicate 9 \<lparr> p_height = 842, p_blocks = [] \<rparr>, d_format = ustr ''PDF 1.7'' \<rparr>"

text \<open>One page holding one block with one line of the given spans.\<close>

definition mk_span :: "string \<Rightarrow> rat \<Rightarrow> span" where
  "mk_span t sz = \<lparr> s_text = ustr t, s_font = ustr ''Times'', s_size = sz, s_flags = 0 \<rparr>"

definition doc_of_spans :: "span list \<Rightarrow> document" where
  "doc_of_spans ss =
     \<lparr> d_toc = [],
       d_pages = [\<lparr> p_height = 842,
                    p_blocks = [\<lparr> b_type = 0, b_bbox = (72, 100, 500, 120),
                                  b_lines = Some [\<lparr> l_spans = Some ss \<rparr>] \<rparr>] \<rparr>],
       d_format = ustr ''PDF 1.7'' \<rparr>"

definition doc_5_4 :: document where
  "doc_5_4 = doc_of_spans (replicate 5 (mk_span ''text'' 12) @ replicate 4 (mk_span ''Head'' 14))"

definition doc_20_7 :: document where
  "doc_20_7 = doc_of_spans (replicate 20 (mk_span ''text'' 12) @ replicate 7 (mk_span ''Head'' 14))"

definition doc_one_size :: document where
  "doc_one_size = doc_of_spans [mk_span ''One'' 12, mk_span ''size'' (61 / 5), mk_span ''only'' 12]"

definition doc_leading_space :: document where
  "doc_leading_space = doc_of_spans [mk_span ''Body'' 12, mk_span '' note'' 30, mk_span ''  '' 30]"

definition toc_jump :: "entry list" where
  "toc_jump = [(1, ustr ''Intro'', 1, 5), (2, ustr ''Aims'', 2, 5), (1, ustr ''Methods'', 5, 9),
               (3, ustr ''Detail'', 6, 9)]"

definition doc_dup :: document where
  "doc_dup = \<lparr> d_toc = [(1, ustr ''Notes'', 1), (2, ustr ''First'', 1), (1, ustr ''Notes'', 1),
                        (2, ustr ''Second'', 1)],
               d_pages = [\<lparr> p_height = 842, p_blocks = [] \<rparr>], d_format = ustr ''PDF 1.7'' \<rparr>"

definition toc_dup :: "entry list" where
  "toc_dup = [(1, ustr ''Notes'', 1, 1), (2, ustr ''First'', 1, 1), (1, ustr ''Notes'', 1, 1),
              (2, ustr ''Second'', 1, 1)]"

definition related_work :: ustring where
  "related_work = ustr ''3.2 Related Work''"

definition bold_span :: span where
  "bold_span = \<lparr> s_text = related_work, s_font = ustr ''Times-Bold'', s_size = 14, s_flags = 16 \<rparr>"

definition stats1 :: font_stats where
  "stats1 = \<lparr> fs_median_size = Some 11, fs_large_sizes = Some [18, 14, 12] \<rparr>"

definition ucd_ascii :: ucd where
  "ucd_ascii = \<lparr> u_decimal = (\<lambda>c. False), u_word = (\<lambda>c. False), u_tolower = (\<lambda>c. c),
                 u_lower = (\<lambda>s. s), u_isupper = (\<lambda>s. False) \<rparr>"

text \<open>
  A page with one block of three lines: the title Methods in 14 points, then the body
  in 12 points, a word broken at the end of its line.
\<close>

definition doc_hyphen :: document where
  "doc_hyphen =
     \<lparr> d_toc = [(1, ustr ''Methods'', 1)],
       d_pages = [\<lparr> p_height = 842,
                    p_blocks = [\<lparr> b_type = 0, b_bbox = (72, 100, 500, 160),
                                  b_lines = Some [\<lparr> l_spans = Some [mk_span ''Methods'' 14] \<rparr>,
                                                  \<lparr> l_spans = Some [mk_span ''exam-'' 12] \<rparr>,
                                                  \<lparr> l_spans = Some [mk_span ''ple'' 12] \<rparr>] \<rparr>] \<rparr>],
       d_format = ustr ''PDF 1.7'' \<rparr>"

section \<open>Properties of get_toc\<close>

lemma toc_loop_eq:
  "i \<le> length toc \<Longrightarrow> toc_loop toc pc i acc =
     acc @ map (\<lambda>j. case toc ! j of (level, title, start_page) \<Rightarrow>
        (level, clean_title title, start_page, look_ahead level pc (drop (Suc j) toc))) [i ..< length toc]"
proof (induction toc pc i acc rule: toc_loop.induct)
  case (1 toc pc i acc)
  show ?case
  proof (cases "i < length toc")
    case True
    obtain level title start_page where t: "toc ! i = (level, title, start_page)"
      by (cases "toc ! i") auto
    have "toc_loop toc pc i acc = toc_loop toc pc (Suc i)
             (acc @ [(level, clean_title title, start_page, look_ahead level pc (drop (Suc i) toc))])"
      using True t by (subst toc_loop.simps) simp
    also have "\<dots> = (acc @ [(level, clean_title title, start_page, look_ahead level pc (drop (Suc i) toc))]) @
       map (\<lambda>j. case toc ! j of (level, title, start_page) \<Rightarrow>
        (level, clean_title title, start_page, look_ahead level pc (drop (Suc j) toc))) [Suc i ..< length toc]"
      using "1.IH"[OF True t[symmetric] refl] True by simp
    finally show ?thesis using True t by (simp add: upt_conv_Cons)
  next
    case False
    then show ?thesis using "1.prems" by (subst toc_loop.simps) simp
  qed
qed

lemma look_ahead_cases:
  "(\<exists>j < length xs. fst (xs ! j) \<le> L \<and> (\<forall>k < j. L < fst (xs ! k)) \<and> look_ahead L d xs = snd (snd (xs ! j)))
   \<or> ((\<forall>k < length xs. L < fst (xs ! k)) \<and> look_ahead L d xs = d)"
proof (induction xs)
  case Nil
  then show ?case by simp
next
  case (Cons x xs)
  obtain l t p where x: "x = (l, t, p)" by (cases x) auto
  show ?case
  proof (cases "l \<le> L")
    case True
    then show ?thesis using x by (intro disjI1 exI[of _ 0]) simp
  next
    case False
    from Cons.IH show ?thesis
    proof
      assume "\<exists>j<length xs. fst (xs ! j) \<le> L \<and> (\<forall>k<j. L < fst (xs ! k)) \<and> look_ahead L d xs = snd (snd (xs ! j))"
      then obtain j where j: "j < length xs" "fst (xs ! j) \<le> L" "\<forall>k<j. L < fst (xs ! k)" "look_ahead L d xs = snd (snd (xs ! j))"
        by blast
      have "\<forall>k<Suc j. L < fst ((x # xs) ! k)"
        using j(3) False x by (auto simp: nth_Cons split: nat.splits)
      then show ?thesis using j False x
        by (intro disjI1 exI[of _ "Suc j"]) simp
    next
      assume a: "(\<forall>k<length xs. L < fst (xs ! k)) \<and> look_ahead L d xs = d"
      then have "\<forall>k<length (x # xs). L < fst ((x # xs) ! k)"
        using False x by (auto simp: nth_Cons split: nat.splits)
      then show ?thesis using a False x by simp
    qed
  qed
qed


lemma get_toc_nth:
  assumes "i < length (d_toc doc)"
  shows "get_toc doc ! i =
     (o_level (d_toc doc ! i), clean_title (o_title (d_toc doc ! i)), o_page (d_toc doc ! i),
      look_ahead (o_level (d_toc doc ! i)) (page_count doc) (drop (Suc i) (d_toc doc)))"
  using assms
  by (simp add: get_toc_def toc_loop_eq o_level_def o_title_def o_page_def split: prod.splits)

lemma get_toc_length: "length (get_toc doc) = length (d_toc doc)"
  by (simp add: get_toc_def toc_loop_eq)

text \<open>
  Claim C1. \<open>get_toc\<close> returns one entry per item of the embedded outline, in the
  outline's order, with the item's level and page and its cleaned title; the entry's
  \<open>end_page\<close> is the page of the first later item whose level is at most the entry's
  level, and the document's page count when there is no such item.
\<close>

theorem get_toc_end_page:
  "length (get_toc doc) = length (d_toc doc) \<and>
   (\<forall>i < length (d_toc doc).
      e_level (get_toc doc ! i) = o_level (d_toc doc ! i) \<and>
      e_title (get_toc doc ! i) = clean_title (o_title (d_toc doc ! i)) \<and>
      e_start (get_toc doc ! i) = o_page (d_toc doc ! i) \<and>
      ((\<exists>j. i < j \<and> j < length (d_toc doc) \<and>
            o_level (d_toc doc ! j) \<le> o_level (d_toc doc ! i) \<and>
            (\<forall>k. i < k \<and> k < j \<longrightarrow> o_level (d_toc doc ! i) < o_level (d_toc doc ! k)) \<and>
            e_end (get_toc doc ! i) = o_page (d_toc doc ! j))
       \<or> ((\<forall>k. i < k \<and> k < length (d_toc doc) \<longrightarrow> o_level (d_toc doc ! i) < o_level (d_toc doc ! k)) \<and>
          e_end (get_toc doc ! i) = page_count doc)))"
proof (intro conjI allI impI)
  show "length (get_toc doc) = length (d_toc doc)" by (rule get_toc_length)
next
  fix i assume i: "i < length (d_toc doc)"
  show "e_level (get_toc doc ! i) = o_level (d_toc doc ! i)"
    by (simp add: get_toc_nth[OF i] e_level_def)
  show "e_title (get_toc doc ! i) = clean_title (o_title (d_toc doc ! i))"
    by (simp add: get_toc_nth[OF i] e_title_def)
  show "e_start (get_toc doc ! i) = o_page (d_toc doc ! i)"
    by (simp add: get_toc_nth[OF i] e_start_def)
  let ?toc = "d_toc doc" and ?L = "o_level (d_toc doc ! i)"
  let ?xs = "drop (Suc i) ?toc"
  have e: "e_end (get_toc doc ! i) = look_ahead ?L (page_count doc) ?xs"
    by (simp add: get_toc_nth[OF i] e_end_def)
  from look_ahead_cases[of ?xs ?L "page_count doc"]
  show "(\<exists>j. i < j \<and> j < length ?toc \<and> o_level (?toc ! j) \<le> ?L \<and>
            (\<forall>k. i < k \<and> k < j \<longrightarrow> ?L < o_level (?toc ! k)) \<and>
            e_end (get_toc doc ! i) = o_page (?toc ! j))
       \<or> ((\<forall>k. i < k \<and> k < length ?toc \<longrightarrow> ?L < o_level (?toc ! k)) \<and>
          e_end (get_toc doc ! i) = page_count doc)"
  proof
    assume "\<exists>j<length ?xs. fst (?xs ! j) \<le> ?L \<and> (\<forall>k<j. ?L < fst (?xs ! k)) \<and>
              look_ahead ?L (page_count doc) ?xs = snd (snd (?xs ! j))"
    then obtain j where j: "j < length ?xs" "fst (?xs ! j) \<le> ?L" "\<forall>k<j. ?L < fst (?xs ! k)"
        "look_ahead ?L (page_count doc) ?xs = snd (snd (?xs ! j))" by blast
    let ?j = "Suc i + j"
    have 1: "i < ?j" "?j < length ?toc" using j(1) by auto
    have 2: "o_level (?toc ! ?j) \<le> ?L" using j(1,2) by (simp add: o_level_def)
    have 3: "\<forall>k. i < k \<and> k < ?j \<longrightarrow> ?L < o_level (?toc ! k)"
    proof (intro allI impI)
      fix k assume k: "i < k \<and> k < ?j"
      then have "k - Suc i < j" by auto
      with j(3) have "?L < fst (?xs ! (k - Suc i))" by blast
      moreover have "Suc i + (k - Suc i) = k" using k by auto
      ultimately show "?L < o_level (?toc ! k)" using j(1) k by (simp add: o_level_def)
    qed
    have 4: "e_end (get_toc doc ! i) = o_page (?toc ! ?j)"
      using e j(1,4) by (simp add: o_page_def)
    from 1 2 3 4 show ?thesis by blast
  next
    assume a: "(\<forall>k<length ?xs. ?L < fst (?xs ! k)) \<and> look_ahead ?L (page_count doc) ?xs = page_count doc"
    have "\<forall>k. i < k \<and> k < length ?toc \<longrightarrow> ?L < o_level (?toc ! k)"
    proof (intro allI impI)
      fix k assume k: "i < k \<and> k < length ?toc"
      then have "k - Suc i < length ?xs" by auto
      with a have "?L < fst (?xs ! (k - Suc i))" by blast
      moreover have "Suc i + (k - Suc i) = k" using k by auto
      ultimately show "?L < o_level (?toc ! k)" using k by (simp add: o_level_def)
    qed
    with a e show ?thesis by simp
  qed
qed


lemmas re_eval = re_sub_def re_sub_from.simps re_match_def ustr_def Plus_def Lit_def Str_def OneOf_def

lemma doc1_get_toc:
  "get_toc doc1 = [(1, ustr ''Intro'', 1, 5), (2, ustr ''Aims'', 2, 5), (1, ustr ''Methods'', 5, 9)]"
  by (simp add: get_toc_def toc_loop_eq doc1_def page_count_def upt_rec clean_title_def re_eval)

text \<open>
  The entries of \<open>doc1\<close>: the first subsection ends where the next chapter starts,
  the last chapter at the page count.
\<close>

theorem get_toc_end_page_witness:
  "length (get_toc doc1) = 3 \<and> e_end (get_toc doc1 ! 0) = o_page (d_toc doc1 ! 2) \<and>
   e_end (get_toc doc1 ! 1) = 5 \<and> e_end (get_toc doc1 ! 2) = page_count doc1"
proof -
  from get_toc_end_page[of doc1] have "length (get_toc doc1) = length (d_toc doc1)" by blast
  moreover have "length (d_toc doc1) = 3" "o_page (d_toc doc1 ! 2) = 5" "page_count doc1 = 9"
    by (simp_all add: doc1_def o_page_def page_count_def)
  ultimately show ?thesis by (simp add: doc1_get_toc e_end_def)
qed

text \<open>
  Claim C6, as the code has it. \<open>get_toc\<close> never clamps: \<open>end_page\<close> is the page of a
  later item or the page count, whatever the entry's own page. So \<open>start_page \<le> end_page\<close>
  holds for every entry when the outline's pages never decrease in outline order and
  none exceeds the page count.
\<close>

theorem get_toc_start_le_end:
  assumes "sorted (map o_page (d_toc doc))"
    and "\<forall>it \<in> set (d_toc doc). o_page it \<le> page_count doc"
  shows "\<forall>e \<in> set (get_toc doc). e_start e \<le> e_end e"
proof
  fix e assume "e \<in> set (get_toc doc)"
  then obtain i where i: "i < length (d_toc doc)" and e: "e = get_toc doc ! i"
    by (auto simp: in_set_conv_nth get_toc_length)
  let ?toc = "d_toc doc" and ?L = "o_level (d_toc doc ! i)"
  let ?xs = "drop (Suc i) ?toc"
  have s: "e_start e = o_page (?toc ! i)" by (simp add: e get_toc_nth[OF i] e_start_def)
  have en: "e_end e = look_ahead ?L (page_count doc) ?xs" by (simp add: e get_toc_nth[OF i] e_end_def)
  from look_ahead_cases[of ?xs ?L "page_count doc"] show "e_start e \<le> e_end e"
  proof
    assume "\<exists>j<length ?xs. fst (?xs ! j) \<le> ?L \<and> (\<forall>k<j. ?L < fst (?xs ! k)) \<and>
              look_ahead ?L (page_count doc) ?xs = snd (snd (?xs ! j))"
    then obtain j where j: "j < length ?xs" "look_ahead ?L (page_count doc) ?xs = snd (snd (?xs ! j))" by blast
    have "Suc i + j < length ?toc" using j(1) by auto
    then have "map o_page ?toc ! i \<le> map o_page ?toc ! (Suc i + j)"
      using assms(1) by (intro sorted_nth_mono) auto
    then have "o_page (?toc ! i) \<le> o_page (?toc ! (Suc i + j))"
      using i \<open>Suc i + j < length ?toc\<close> by simp
    then show ?thesis using s en j by (simp add: o_page_def)
  next
    assume "(\<forall>k<length ?xs. ?L < fst (?xs ! k)) \<and> look_ahead ?L (page_count doc) ?xs = page_count doc"
    then show ?thesis using s en assms(2) i by simp
  qed
qed

theorem get_toc_start_le_end_witness:
  "sorted (map o_page (d_toc doc1)) \<and> e_start (get_toc doc1 ! 1) \<le> e_end (get_toc doc1 ! 1)"
proof -
  have 1: "sorted (map o_page (d_toc doc1))" by (simp add: doc1_def o_page_def)
  have 2: "\<forall>it \<in> set (d_toc doc1). o_page it \<le> page_count doc1"
    by (simp add: doc1_def o_page_def page_count_def)
  have "get_toc doc1 ! 1 \<in> set (get_toc doc1)" by (simp add: doc1_get_toc)
  with get_toc_start_le_end[OF 1 2] show ?thesis using 1 by blast
qed

text \<open>
  Claim C6 as stated fails: in \<open>doc2\<close> the first item points to page 5 and the next
  item of the same level to page 2, and the entry returned is \<open>(1, Results, 5, 2)\<close>.
\<close>

theorem get_toc_start_le_end_counterexample:
  "get_toc doc2 ! 0 = (1, ustr ''Results'', 5, 2) \<and> get_toc doc2 ! 0 \<in> set (get_toc doc2) \<and>
   \<not> e_start (get_toc doc2 ! 0) \<le> e_end (get_toc doc2 ! 0)"
proof -
  have "get_toc doc2 = [(1, ustr ''Results'', 5, 2), (1, ustr ''Cover'', 2, 9)]"
    by (simp add: get_toc_def toc_loop_eq doc2_def page_count_def upt_rec clean_title_def re_eval)
  then show ?thesis by (simp add: e_start_def e_end_def)
qed

section \<open>Properties of get_main_size and get_main_font\<close>

lemma iter_nonempty: "iter k f st \<noteq> []"
  by (cases k) simp_all

lemma re_match_ws_plus: "re_match ws_plus t = starts_with_space t"
  by (cases t) (auto simp: re_match_def ws_plus_def Plus_def starts_with_space_def iter_nonempty py_isspace_def)

lemma fold_append_filter:
  "fold (\<lambda>x acc. if P x then acc @ [g x] else acc) xs acc = acc @ map g (filter P xs)"
  by (induction xs arbitrary: acc) simp_all

lemma fold_fold_concat:
  assumes "\<And>x acc. h x acc = acc @ k x"
  shows "fold h xs acc = acc @ concat (map k xs)"
  using assms by (induction xs arbitrary: acc) simp_all

lemma font_sizes_eq:
  "font_sizes doc = map (\<lambda>s. py_round (s_size s)) (filter (\<lambda>s. \<not> starts_with_space (s_text s)) (all_spans doc))"
  unfolding font_sizes_def all_spans_def re_match_ws_plus
  by (simp add: fold_append_filter fold_fold_concat[where k="\<lambda>x. _ x"] map_concat filter_concat comp_def)

lemma fonts_eq:
  "fonts doc = map s_font (filter (\<lambda>s. \<not> starts_with_space (s_text s)) (all_spans doc))"
  unfolding fonts_def all_spans_def re_match_ws_plus
  by (simp add: fold_append_filter fold_fold_concat[where k="\<lambda>x. _ x"] map_concat filter_concat comp_def)

lemma counter_add_keys: "set (map fst (counter_add x kcs)) = insert x (set (map fst kcs))"
proof (induction kcs)
  case Nil
  then show ?case by simp
next
  case (Cons kc kcs)
  obtain k c where kc: "kc = (k, c)" by (cases kc) auto
  show ?case
  proof (cases "k = x")
    case True
    then show ?thesis using kc by auto
  next
    case False
    have "set (map fst (counter_add x (kc # kcs))) = insert k (set (map fst (counter_add x kcs)))"
      using False kc by simp
    also have "\<dots> = insert k (insert x (set (map fst kcs)))" using Cons.IH by simp
    finally show ?thesis using kc by auto
  qed
qed

lemma counter_add_distinct: "distinct (map fst kcs) \<Longrightarrow> distinct (map fst (counter_add x kcs))"
proof (induction kcs)
  case Nil
  then show ?case by simp
next
  case (Cons kc kcs)
  obtain k c where kc: "kc = (k, c)" by (cases kc) auto
  have "set (map fst (counter_add x kcs)) = insert x (set (map fst kcs))"
    by (rule counter_add_keys)
  then have "x \<noteq> k \<Longrightarrow> k \<notin> fst ` set (counter_add x kcs)"
    using Cons.prems kc by auto
  then show ?case using Cons kc by auto
qed

lemma fold_counter_add:
  "distinct (map fst acc) \<Longrightarrow>
     distinct (map fst (fold counter_add xs acc)) \<and>
     set (map fst (fold counter_add xs acc)) = set xs \<union> set (map fst acc)"
proof (induction xs arbitrary: acc)
  case Nil
  then show ?case by simp
next
  case (Cons x xs)
  have d: "distinct (map fst (counter_add x acc))" using Cons.prems by (rule counter_add_distinct)
  from Cons.IH[OF d] show ?case using counter_add_keys[of x acc] by auto
qed

lemma length_Counter: "length (Counter xs) = card (set xs)"
proof -
  have "distinct (map fst (Counter xs))" "set (map fst (Counter xs)) = set xs"
    using fold_counter_add[of "[]" xs] by (simp_all add: Counter_def)
  then have "card (set xs) = length (map fst (Counter xs))"
    using distinct_card by metis
  then show ?thesis by simp
qed

lemma length_most_common: "length (most_common n (Counter xs)) = min n (card (set xs))"
  by (simp add: most_common_def length_Counter min.commute)

text \<open>
  Claim C9. \<open>font_sizes doc\<close> is the list of rounded sizes the function counts. With
  fewer than two distinct values in it (one, or none at all) \<open>most_common(2)\<close> has
  fewer than two items and reading \<open>dominant_size[1]\<close> raises IndexError; with two or
  more distinct values the function returns a size.
\<close>

theorem get_main_size_IndexError:
  "(card (set (font_sizes doc)) < 2 \<longrightarrow> get_main_size doc = Inl IndexError) \<and>
   (2 \<le> card (set (font_sizes doc)) \<longrightarrow> (\<exists>size. get_main_size doc = Inr size))"
proof (intro conjI impI)
  assume "card (set (font_sizes doc)) < 2"
  then have "length (most_common 2 (Counter (font_sizes doc))) < 2"
    by (simp add: length_most_common)
  then show "get_main_size doc = Inl IndexError"
    by (cases "most_common 2 (Counter (font_sizes doc))" rule: list.exhaust[case_names Nil Cons])
       (auto simp: get_main_size_def Let_def split: list.splits)
next
  assume "2 \<le> card (set (font_sizes doc))"
  then have "length (most_common 2 (Counter (font_sizes doc))) = 2"
    by (simp add: length_most_common)
  then obtain d0 d1 where "most_common 2 (Counter (font_sizes doc)) = [d0, d1]"
    by (auto simp: length_Suc_conv numeral_2_eq_2)
  then show "\<exists>size. get_main_size doc = Inr size"
    by (simp add: get_main_size_def Let_def)
qed

lemma all_spans_doc_of_spans: "all_spans (doc_of_spans ss) = ss"
  by (simp add: all_spans_def doc_of_spans_def get_lines_def get_spans_def)

lemma font_sizes_doc_of_spans:
  "font_sizes (doc_of_spans ss) =
     map (\<lambda>s. py_round (s_size s)) (filter (\<lambda>s. \<not> starts_with_space (s_text s)) ss)"
  by (simp add: font_sizes_eq all_spans_doc_of_spans)

lemma py_round_evals: "py_round 12 = 12" "py_round 14 = 14" "py_round (61 / 5) = 12" "py_round 30 = 30"
proof -
  have f: "\<lfloor>61 / 5 :: rat\<rfloor> = 12" by (simp add: floor_eq_iff)
  show "py_round (61 / 5) = 12" by (simp add: py_round_def Let_def f)
qed (simp_all add: py_round_def Let_def)

lemma starts_evals:
  "\<not> starts_with_space (ustr ''text'')" "\<not> starts_with_space (ustr ''Head'')"
  "\<not> starts_with_space (ustr ''One'')" "\<not> starts_with_space (ustr ''size'')"
  "\<not> starts_with_space (ustr ''only'')" "\<not> starts_with_space (ustr ''Body'')"
  "starts_with_space (ustr '' note'')" "starts_with_space (ustr ''  '')"
  by (simp_all add: starts_with_space_def ustr_def py_isspace_def)

lemma font_sizes_5_4: "font_sizes doc_5_4 = replicate 5 12 @ replicate 4 14"
  by (simp add: doc_5_4_def font_sizes_doc_of_spans mk_span_def py_round_evals starts_evals)

lemma font_sizes_20_7: "font_sizes doc_20_7 = replicate 20 12 @ replicate 7 14"
  by (simp add: doc_20_7_def font_sizes_doc_of_spans mk_span_def py_round_evals starts_evals)

lemma mc_5_4: "most_common 2 (Counter (replicate 5 12 @ replicate 4 (14::int))) = [(12, 5), (14, 4)]"
  by code_simp

lemma mc_20_7: "most_common 2 (Counter (replicate 20 12 @ replicate 7 (14::int))) = [(12, 20), (14, 7)]"
  by code_simp

text \<open>
  Claim C2 against the code. The second conjunct of the condition compares the count of
  the second size with half of the most frequent size, not with half of its count.
  Sizes 12 (5 spans) and 14 (4 spans): the second size is larger and its count 4
  exceeds half the top count 5, yet \<open>4 > 12 / 2\<close> is false and the result is 12.
  Sizes 12 (20 spans) and 14 (7 spans): 7 does not exceed half of 20, yet \<open>7 > 12 / 2\<close>
  holds and the result is 14.
\<close>

theorem get_main_size_half_of_size:
  "most_common 2 (Counter (font_sizes doc_5_4)) = [(12, 5), (14, 4)] \<and>
   get_main_size doc_5_4 = Inr 12 \<and>
   most_common 2 (Counter (font_sizes doc_20_7)) = [(12, 20), (14, 7)] \<and>
   get_main_size doc_20_7 = Inr 14"
proof -
  have a: "most_common 2 (Counter (font_sizes doc_5_4)) = [(12, 5), (14, 4)]"
    by (simp only: font_sizes_5_4 mc_5_4)
  have b: "most_common 2 (Counter (font_sizes doc_20_7)) = [(12, 20), (14, 7)]"
    by (simp only: font_sizes_20_7 mc_20_7)
  have "get_main_size doc_5_4 = Inr 12" unfolding get_main_size_def Let_def a by simp
  moreover have "get_main_size doc_20_7 = Inr 14" unfolding get_main_size_def Let_def b by simp
  ultimately show ?thesis using a b by simp
qed

text \<open>
  Three spans whose sizes all round to 12 raise IndexError; spans of sizes 12 and 14
  give a result.
\<close>

theorem get_main_size_IndexError_witness:
  "card (set (font_sizes doc_one_size)) < 2 \<and> get_main_size doc_one_size = Inl IndexError \<and>
   2 \<le> card (set (font_sizes doc_5_4)) \<and> (\<exists>size. get_main_size doc_5_4 = Inr size)"
proof -
  have 1: "font_sizes doc_one_size = [12, 12, 12]"
    by (simp add: doc_one_size_def font_sizes_doc_of_spans mk_span_def py_round_evals starts_evals)
  have a: "card (set (font_sizes doc_one_size)) < 2" by (simp add: 1)
  have "set (font_sizes doc_5_4) = {12, 14}" by (auto simp: font_sizes_5_4)
  then have b: "2 \<le> card (set (font_sizes doc_5_4))" by simp
  from a b get_main_size_IndexError[of doc_one_size] get_main_size_IndexError[of doc_5_4]
  show ?thesis by blast
qed

text \<open>
  Claim C10. The sizes counted by \<open>get_main_size\<close> and the fonts counted by
  \<open>get_main_font\<close> are those of exactly the spans, in reading order, whose text does
  not start with a whitespace character: a span is left out as soon as its first
  character is whitespace, whatever follows.
\<close>

theorem counted_spans:
  "font_sizes doc =
     map (\<lambda>s. py_round (s_size s)) (filter (\<lambda>s. \<not> starts_with_space (s_text s)) (all_spans doc)) \<and>
   fonts doc = map s_font (filter (\<lambda>s. \<not> starts_with_space (s_text s)) (all_spans doc))"
  by (simp add: font_sizes_eq fonts_eq)

text \<open>
  The span \<open>" note"\<close> has visible content and a leading space: it is not counted,
  no more than the whitespace-only span.
\<close>

theorem counted_spans_witness:
  "all_spans doc_leading_space = [mk_span ''Body'' 12, mk_span '' note'' 30, mk_span ''  '' 30] \<and>
   font_sizes doc_leading_space = [12] \<and> fonts doc_leading_space = [ustr ''Times'']"
  using counted_spans[of doc_leading_space]
  by (simp add: doc_leading_space_def all_spans_doc_of_spans mk_span_def py_round_evals starts_evals)

section \<open>Properties of get_children\<close>

lemma successively_drop: "successively P xs \<Longrightarrow> successively P (drop n xs)"
proof (induction n arbitrary: xs)
  case 0
  then show ?case by simp
next
  case (Suc n)
  then show ?case
    by (cases xs) (auto simp: successively_Cons)
qed

lemma children_loop_stop:
  "successively (\<lambda>a b. e_level b \<le> e_level a + 1) xs \<Longrightarrow>
   (xs \<noteq> [] \<longrightarrow> e_level (hd xs) \<le> L) \<Longrightarrow> children_loop L xs acc = acc"
proof (induction xs)
  case Nil
  then show ?case by simp
next
  case (Cons x xs)
  then have x: "e_level x \<le> L" by simp
  show ?case
  proof (cases "e_level x = L")
    case True
    then show ?thesis by simp
  next
    case False
    then have lt: "e_level x < L" using x by simp
    have s: "successively (\<lambda>a b. e_level b \<le> e_level a + 1) xs"
      using Cons.prems(1) by (auto simp: successively_Cons)
    have h: "xs \<noteq> [] \<longrightarrow> e_level (hd xs) \<le> L"
    proof
      assume "xs \<noteq> []"
      then have "e_level (hd xs) \<le> e_level x + 1"
        using Cons.prems(1) by (cases xs) auto
      then show "e_level (hd xs) \<le> L" using lt by simp
    qed
    have "children_loop L (x # xs) acc = children_loop L xs acc" using lt by simp
    then show ?thesis using Cons.IH[OF s h] by simp
  qed
qed

lemma children_loop_takeWhile:
  "successively (\<lambda>a b. e_level b \<le> e_level a + 1) xs \<Longrightarrow>
   children_loop L xs acc = acc @ takeWhile (\<lambda>e. L < e_level e) xs"
proof (induction xs arbitrary: acc)
  case Nil
  then show ?case by simp
next
  case (Cons x xs)
  show ?case
  proof (cases "L < e_level x")
    case True
    have s: "successively (\<lambda>a b. e_level b \<le> e_level a + 1) xs"
      using Cons.prems by (auto simp: successively_Cons)
    show ?thesis using True Cons.IH[OF s] by simp
  next
    case False
    then have "children_loop L (x # xs) acc = acc"
      using children_loop_stop[OF Cons.prems, of L acc] by simp
    then show ?thesis using False by simp
  qed
qed

lemma py_index_Some: "x \<in> set xs \<Longrightarrow> \<exists>i. py_index x xs = Some i \<and> i < length xs \<and> xs ! i = x \<and> x \<notin> set (take i xs)"
proof (induction xs)
  case Nil
  then show ?case by simp
next
  case (Cons y ys)
  show ?case
  proof (cases "y = x")
    case True
    then show ?thesis by simp
  next
    case False
    then have "x \<in> set ys" using Cons.prems by simp
    from Cons.IH[OF this] obtain i where "py_index x ys = Some i" "i < length ys" "ys ! i = x" "x \<notin> set (take i ys)"
      by blast
    then show ?thesis using False by (intro exI[of _ "Suc i"]) simp
  qed
qed

text \<open>
  On a ToC whose levels never rise by more than one from an entry to the next, an entry
  of smaller level that the loop passes over is followed by one of equal level before
  any deeper one, so the loop returns the run of deeper entries that follows the first
  occurrence of the section.
\<close>

lemma get_children_stepwise:
  assumes "successively (\<lambda>a b. e_level b \<le> e_level a + 1) toc"
    and "section \<in> set toc"
  shows "\<exists>i. py_index section toc = Some i \<and> i < length toc \<and> toc ! i = section \<and>
             get_children toc section =
               Inr (takeWhile (\<lambda>e. e_level section < e_level e) (drop (Suc i) toc))"
proof -
  from py_index_Some[OF assms(2)] obtain i where
    i: "py_index section toc = Some i" "i < length toc" "toc ! i = section" by blast
  have "successively (\<lambda>a b. e_level b \<le> e_level a + 1) (drop (Suc i) toc)"
    using assms(1) by (rule successively_drop)
  then have "children_loop (e_level section) (drop (Suc i) toc) [] =
      takeWhile (\<lambda>e. e_level section < e_level e) (drop (Suc i) toc)"
    using children_loop_takeWhile[of "drop (Suc i) toc" "e_level section" "[]"] by simp
  then show ?thesis using i by (simp add: get_children_def)
qed

lemma doc_dup_get_toc: "get_toc doc_dup = toc_dup"
  by (simp add: get_toc_def toc_loop_eq doc_dup_def toc_dup_def page_count_def upt_rec
        clean_title_def re_eval)

text \<open>
  Claim C3 against the code. The loop of \<open>get_children\<close> ends only at an entry of equal
  level (\<open>elif sec[0]==level: break\<close>) and goes on after one of smaller level, where
  \<open>get_next_section\<close> and \<open>get_toc\<close> test \<open><=\<close>. In \<open>toc_jump\<close> the entry after Aims
  (level 2) is Methods (level 1): the run of children of Aims is empty, yet the loop
  returns Detail (level 3), which lies behind Methods. And \<open>self.toc.index(section)\<close>
  finds the first entry equal to the section: in \<open>toc_dup\<close>, the ToC \<open>get_toc\<close> builds
  for the one-page outline of \<open>doc_dup\<close>, the third entry equals the first, and its
  children are reported as those of the first (First) where the entry that follows it
  is Second.
\<close>

theorem get_children_passes_shallower:
  "get_children toc_jump (2, ustr ''Aims'', 2, 5) = Inr [(3, ustr ''Detail'', 6, 9)] \<and>
   takeWhile (\<lambda>e. e_level (2, ustr ''Aims'', 2, 5) < e_level e) (drop 2 toc_jump) = [] \<and>
   toc_jump ! 1 = (2, ustr ''Aims'', 2, 5) \<and>
   e_level (toc_jump ! 2) \<le> e_level (toc_jump ! 1) \<and>
   get_toc doc_dup = toc_dup \<and>
   get_children toc_dup (toc_dup ! 2) = Inr [(2, ustr ''First'', 1, 1)] \<and>
   takeWhile (\<lambda>e. e_level (toc_dup ! 2) < e_level e) (drop 3 toc_dup) = [(2, ustr ''Second'', 1, 1)]"
proof -
  have "get_children toc_jump (2, ustr ''Aims'', 2, 5) = Inr [(3, ustr ''Detail'', 6, 9)] \<and>
   takeWhile (\<lambda>e. e_level (2, ustr ''Aims'', 2, 5) < e_level e) (drop 2 toc_jump) = [] \<and>
   toc_jump ! 1 = (2, ustr ''Aims'', 2, 5) \<and>
   e_level (toc_jump ! 2) \<le> e_level (toc_jump ! 1)"
    by (simp add: toc_jump_def get_children_def e_level_def ustr_def)
  moreover have "get_children toc_dup (toc_dup ! 2) = Inr [(2, ustr ''First'', 1, 1)] \<and>
   takeWhile (\<lambda>e. e_level (toc_dup ! 2) < e_level e) (drop 3 toc_dup) = [(2, ustr ''Second'', 1, 1)]"
    by (simp add: toc_dup_def get_children_def e_level_def ustr_def)
  ultimately show ?thesis using doc_dup_get_toc by blast
qed

section \<open>Properties of the heading score\<close>

lemmas cls_eval = seq_def dot_def cls_space_def cls_digit_def ci_cls_def ci_str_def ci_fix_def
  sep_cls_def roman_cls_def is_digit_def sre_lower_def ascii_lower_def py_isspace_def

lemma rw_pattern: "\<not> pattern_match U related_work"
  by (simp add: pattern_match_def heading_patterns_def related_work_def re_eval cls_eval)

lemma rw_numeric: "numeric_start U related_work"
  by (simp add: numeric_start_def related_work_def re_eval cls_eval)

lemma rw_roman: "\<not> roman_start U related_work"
  by (simp add: roman_start_def related_work_def re_eval cls_eval)

lemma rw_keyword: "\<not> keyword_match U related_work"
  by (simp add: keyword_match_def heading_keywords_def related_work_def py_lower_def is_ascii_def ustr_def ascii_lower_def)

lemma rw_caps: "\<not> py_isupper U related_work"
  by (simp add: py_isupper_def related_work_def is_ascii_def ustr_def)

lemma size_level_ge_1: "1 \<le> size_level sz ls"
  by (simp add: size_level_def)

lemma size_level_le_4: "size_level sz ls \<le> 4"
  by (simp add: size_level_def)

lemma rw_level: "determine_heading_level U related_work sp fs = max 2 (size_level (s_size sp) (large_sizes fs))"
  using size_level_le_4[of "s_size sp" "large_sizes fs"]
  by (simp add: determine_heading_level_def Let_def related_work_def re_eval cls_eval max.commute)

text \<open>
  Claim C8. For the text \<open>3.2 Related Work\<close> in a bold span whose size is above the
  median, the score is 2 (size) + 2 (bold) + 2 (numeric marker), plus 1 when the span is
  italic as well: at least 3, so \<open>_is_potential_heading\<close> accepts it. No heading
  pattern, keyword or Roman marker matches, and the text is not upper case.
  \<open>_determine_heading_level\<close> reaches the branch of \<^verbatim>\<open>^\d+\.\d+\<close> and returns a level
  of at least 2, whatever the size-based level was.
\<close>

theorem related_work_heading:
  assumes "s_size sp > median_size fs" and "s_flags sp AND 2 ^ 4 \<noteq> 0"
  shows "heading_score U related_work sp fs = (if s_flags sp AND 2 ^ 1 \<noteq> 0 then 7 else 6) \<and>
         heading_score U related_work sp fs \<ge> 3 \<and>
         is_potential_heading U related_work sp fs \<and>
         determine_heading_level U related_work sp fs \<ge> 2"
proof -
  have score: "heading_score U related_work sp fs = (if s_flags sp AND 2 ^ 1 \<noteq> 0 then 7 else 6)"
    using assms
    by (simp add: heading_score_def Let_def rw_pattern rw_numeric rw_roman rw_keyword rw_caps)
  have len: "length related_work = 16" by (simp add: related_work_def ustr_def)
  have "is_potential_heading U related_work sp fs"
    using assms(1) score len by (auto simp: is_potential_heading_def)
  moreover have "determine_heading_level U related_work sp fs \<ge> 2"
    by (simp add: rw_level)
  ultimately show ?thesis using score by simp
qed

text \<open>
  A bold 14pt span in a document with median 11 and large sizes 18, 14, 12.
\<close>

theorem related_work_heading_witness:
  "s_size bold_span > median_size stats1 \<and> s_flags bold_span AND 2 ^ 4 \<noteq> 0 \<and>
   heading_score ucd_ascii related_work bold_span stats1 = 6 \<and>
   is_potential_heading ucd_ascii related_work bold_span stats1 \<and>
   determine_heading_level ucd_ascii related_work bold_span stats1 \<ge> 2"
proof -
  have 1: "s_size bold_span > median_size stats1"
    by (simp add: bold_span_def stats1_def median_size_def)
  have 2: "s_flags bold_span AND 2 ^ 4 \<noteq> 0"
    by (simp add: bold_span_def)
  have 3: "\<not> s_flags bold_span AND 2 ^ 1 \<noteq> 0"
    by (simp add: bold_span_def)
  from related_work_heading[OF 1 2, of ucd_ascii] 1 2 3 show ?thesis by simp
qed

section \<open>Properties of text_extract\<close>

lemma iter_prefix:
  assumes f: "\<And>st st'. st' \<in> set (f st) \<Longrightarrow> \<exists>pre. fst st = pre @ fst st' \<and> c \<notin> set pre"
  shows "st' \<in> set (iter k f st) \<Longrightarrow> \<exists>pre. fst st = pre @ fst st' \<and> c \<notin> set pre"
proof (induction k arbitrary: st)
  case 0
  then show ?case by simp
next
  case (Suc k)
  from Suc.prems consider "st' = st"
    | m where "m \<in> set (f st)" "st' \<in> set (iter k f m)"
    by (auto split: if_splits)
  then show ?case
  proof cases
    case 1
    then show ?thesis by simp
  next
    case 2
    from f[OF 2(1)] obtain p1 where p1: "fst st = p1 @ fst m" "c \<notin> set p1" by blast
    from Suc.IH[OF 2(2)] obtain p2 where p2: "fst m = p2 @ fst st'" "c \<notin> set p2" by blast
    have "fst st = (p1 @ p2) @ fst st'" "c \<notin> set (p1 @ p2)" using p1 p2 by auto
    then show ?thesis by blast
  qed
qed

lemma ms_prefix:
  "avoids c r \<Longrightarrow> st' \<in> set (ms r n st) \<Longrightarrow> \<exists>pre. fst st = pre @ fst st' \<and> c \<notin> set pre"
proof (induction r arbitrary: st st')
  case (Chr p)
  then show ?case by (cases "fst st") (auto split: if_splits)
next
  case (Seq a b)
  from Seq.prems obtain m where m: "m \<in> set (ms a n st)" "st' \<in> set (ms b n m)" by auto
  from Seq.IH(1)[OF _ m(1)] Seq.prems(1) obtain p1 where p1: "fst st = p1 @ fst m" "c \<notin> set p1"
    by auto
  from Seq.IH(2)[OF _ m(2)] Seq.prems(1) obtain p2 where p2: "fst m = p2 @ fst st'" "c \<notin> set p2"
    by auto
  have "fst st = (p1 @ p2) @ fst st'" "c \<notin> set (p1 @ p2)" using p1 p2 by auto
  then show ?case by blast
next
  case (Alt a b)
  from Alt.prems(2) have "st' \<in> set (ms a n st) \<or> st' \<in> set (ms b n st)" by simp
  then show ?case
  proof
    assume "st' \<in> set (ms a n st)"
    from Alt.IH(1)[OF _ this] Alt.prems(1) show ?thesis by simp
  next
    assume "st' \<in> set (ms b n st)"
    from Alt.IH(2)[OF _ this] Alt.prems(1) show ?thesis by simp
  qed
next
  case (Star a)
  have "\<And>s s'. s' \<in> set (ms a n s) \<Longrightarrow> \<exists>pre. fst s = pre @ fst s' \<and> c \<notin> set pre"
    using Star.IH Star.prems(1) by simp
  from iter_prefix[of "ms a n" c, OF this] Star.prems(2) show ?case by simp
next
  case (Opt a)
  from Opt.prems(2) have "st' \<in> set (ms a n st) \<or> st' = st" by auto
  then show ?case
  proof
    assume "st' \<in> set (ms a n st)"
    from Opt.IH[OF _ this] Opt.prems(1) show ?thesis by simp
  next
    assume "st' = st"
    then show ?thesis by simp
  qed
next
  case (Grp g a)
  from Grp.prems obtain m where m: "m \<in> set (ms a n st)" "fst st' = fst m" by auto
  from Grp.IH[OF _ m(1)] Grp.prems(1) m(2) show ?case by simp
next
  case Bol
  then show ?case by (auto split: if_splits)
next
  case Eol
  then show ?case by (auto split: if_splits)
next
  case Eps
  then show ?case by auto
qed

lemma expand_avoids: "tmpl_avoids c t \<Longrightarrow> filter (\<lambda>x. x = c) (expand t cs) = []"
  by (induction c t rule: tmpl_avoids.induct) (auto simp: filter_empty_conv)

lemma filter_prefix_avoids: "c \<notin> set pre \<Longrightarrow> filter (\<lambda>x. x = c) (pre @ s) = filter (\<lambda>x. x = c) s"
  by (auto simp: filter_empty_conv)

lemma re_sub_from_keeps:
  assumes r: "avoids c r" and t: "tmpl_avoids c t"
  shows "filter (\<lambda>x. x = c) (re_sub_from r t n s) = filter (\<lambda>x. x = c) s"
proof (induction s rule: length_induct)
  case (1 s)
  note IH = 1
  show ?case
  proof (cases "ms r n (s, [])")
    case Nil
    then show ?thesis
    proof (cases s)
      case Nil
      with \<open>ms r n (s, []) = []\<close> show ?thesis by (simp add: re_sub_from.simps)
    next
      case (Cons x xs)
      have "filter (\<lambda>x. x = c) (re_sub_from r t n xs) = filter (\<lambda>x. x = c) xs"
        using IH Cons by simp
      with Cons \<open>ms r n (s, []) = []\<close> show ?thesis
        by (subst re_sub_from.simps) simp
    qed
  next
    case (Cons m rest)
    then have "m \<in> set (ms r n (s, []))" by simp
    from ms_prefix[OF r this] obtain pre where pre: "s = pre @ fst m" "c \<notin> set pre" by auto
    have e: "filter (\<lambda>x. x = c) (expand t (snd m)) = []" by (rule expand_avoids[OF t])
    show ?thesis
    proof (cases "length (fst m) < length s")
      case True
      then have "filter (\<lambda>x. x = c) (re_sub_from r t n (fst m)) = filter (\<lambda>x. x = c) (fst m)"
        using IH by simp
      moreover have "re_sub_from r t n s = expand t (snd m) @ re_sub_from r t n (fst m)"
        using Cons True by (subst re_sub_from.simps) simp
      moreover have "filter (\<lambda>x. x = c) s = filter (\<lambda>x. x = c) (fst m)"
        using pre filter_prefix_avoids[of c pre "fst m"] by simp
      ultimately show ?thesis using e by simp
    next
      case False
      show ?thesis
      proof (cases s)
        case Nil
        with Cons False e show ?thesis by (subst re_sub_from.simps) simp
      next
        case (Cons x xs)
        have "filter (\<lambda>x. x = c) (re_sub_from r t n xs) = filter (\<lambda>x. x = c) xs"
          using IH Cons by simp
        with Cons \<open>ms r n (s, []) = m # rest\<close> False e show ?thesis
          by (subst re_sub_from.simps) simp
      qed
    qed
  qed
qed

text \<open>
  A substitution whose pattern cannot read a hyphen and whose replacement holds none
  keeps every hyphen of its subject, and so do \<open>strip\<close> and the nine substitutions of
  \<open>text_extract\<close>.
\<close>

lemma re_sub_keeps_hyphens:
  "avoids 45 r \<Longrightarrow> tmpl_avoids 45 t \<Longrightarrow> hyphens (re_sub r t s) = hyphens s"
  unfolding hyphens_def re_sub_def by (rule re_sub_from_keeps)

lemma filter_dropWhile_avoids:
  "\<not> P c \<Longrightarrow> filter (\<lambda>x. x = c) (dropWhile P s) = filter (\<lambda>x. x = c) s"
  by (induction s) auto

lemma py_strip_keeps_hyphens: "hyphens (py_strip s) = hyphens s"
proof -
  have n: "\<not> py_isspace 45" by (simp add: py_isspace_def)
  have "filter (\<lambda>x. x = 45) (rev (dropWhile py_isspace (rev (dropWhile py_isspace s))))
        = rev (filter (\<lambda>x. x = 45) (dropWhile py_isspace (rev (dropWhile py_isspace s))))"
    by (simp only: rev_filter)
  also have "\<dots> = rev (filter (\<lambda>x. x = 45) (rev (dropWhile py_isspace s)))"
    by (simp only: filter_dropWhile_avoids[of py_isspace 45, OF n])
  also have "\<dots> = filter (\<lambda>x. x = 45) (dropWhile py_isspace s)"
    by (simp only: rev_filter rev_rev_ident)
  also have "\<dots> = filter (\<lambda>x. x = 45) s"
    by (simp only: filter_dropWhile_avoids[of py_isspace 45, OF n])
  finally show ?thesis by (simp add: hyphens_def py_strip_def strip_chars_def)
qed

lemma utils_post_keeps_hyphens: "hyphens (utils_post U s) = hyphens s"
proof -
  have sub: "\<And>r t s. avoids 45 r \<Longrightarrow> tmpl_avoids 45 t \<Longrightarrow> hyphens (re_sub r t (py_strip s)) = hyphens s"
    by (simp add: re_sub_keeps_hyphens py_strip_keeps_hyphens)
  have a: "avoids 45 cls_space" "avoids 45 (cls_digit U)" "\<And>c. c \<noteq> 45 \<Longrightarrow> avoids 45 (Lit c)"
    by (simp_all add: cls_space_def cls_digit_def Lit_def py_isspace_def is_digit_def)
  show ?thesis
    unfolding utils_post_def Let_def
    by (simp add: sub a seq_def Plus_def ustr_def)
qed

lemma repair_after_hyphen:
  "1 < length value \<Longrightarrow> last value = 45 \<Longrightarrow> repair value text = value @ text"
  by (simp add: repair_def)

text \<open>
  Claim C5, as the code has it. In \<open>text_extract\<close> of the utils module, a span of the
  main size met under a section key, when the value is longer than one character and
  ends with a hyphen, is appended directly after the hyphen: no space is inserted. The
  hyphen is not removed, then or later: neither \<open>strip\<close> nor any of the nine
  substitutions made at the end of the block deletes a hyphen, so the processed value
  holds the hyphens of the value and those of the span's text, and at least one.
\<close>

theorem utils_span_after_hyphen:
  assumes "1 < length value" and "last value = 45"
    and "key \<noteq> []" and "py_round (s_size sp) = main_font"
  shows "utils_span main_font key sp value = value @ s_text sp \<and>
         hyphens (utils_post U (value @ s_text sp)) = hyphens value @ hyphens (s_text sp) \<and>
         hyphens value \<noteq> []"
proof -
  have 1: "utils_span main_font key sp value = value @ s_text sp"
    using assms by (simp add: utils_span_def Let_def repair_after_hyphen)
  have 2: "hyphens (utils_post U (value @ s_text sp)) = hyphens value @ hyphens (s_text sp)"
    by (simp add: utils_post_keeps_hyphens) (simp add: hyphens_def)
  have "value \<noteq> []" using assms(1) by auto
  then have "last value \<in> set value" by simp
  then have 3: "hyphens value \<noteq> []"
    using assms(2) by (auto simp: hyphens_def filter_empty_conv)
  from 1 2 3 show ?thesis by simp
qed


lemma post_exam_ple: "utils_post ucd_ascii (ustr '' exam-ple'') = ustr ''exam-ple''"
  unfolding utils_post_def Let_def
  by (simp add: py_strip_def strip_chars_def re_eval cls_eval)

text \<open>
  The spans of the claim: after \<open> exam-\<close> the span \<open>ple\<close> gives \<open> exam-ple\<close>, and
  the substitutions leave \<open>exam-ple\<close>.
\<close>

theorem utils_span_after_hyphen_witness:
  "1 < length (ustr '' exam-'') \<and> last (ustr '' exam-'') = 45 \<and> ustr ''methods'' \<noteq> [] \<and>
   py_round (s_size (mk_span ''ple'' 12)) = 12 \<and>
   utils_span 12 (ustr ''methods'') (mk_span ''ple'' 12) (ustr '' exam-'') = ustr '' exam-ple'' \<and>
   hyphens (utils_post ucd_ascii (ustr '' exam-ple'')) = [45] \<and>
   utils_post ucd_ascii (ustr '' exam-ple'') = ustr ''exam-ple''"
proof -
  have r: "py_round (s_size (mk_span ''ple'' 12)) = 12"
    by (simp add: mk_span_def py_round_def)
  have h: "1 < length (ustr '' exam-'')" "last (ustr '' exam-'') = 45" "ustr ''methods'' \<noteq> []"
    by (simp_all add: ustr_def)
  have t: "ustr '' exam-'' @ s_text (mk_span ''ple'' 12) = ustr '' exam-ple''"
    by (simp add: ustr_def mk_span_def)
  have y: "hyphens (ustr '' exam-'') @ hyphens (s_text (mk_span ''ple'' 12)) = [45]"
    by (simp add: ustr_def mk_span_def hyphens_def)
  from utils_span_after_hyphen[OF h r, of ucd_ascii] h r post_exam_ple show ?thesis
    by (simp only: t y) simp
qed

lemma doc_hyphen_info:
  "utils_info_extract doc_hyphen = Inr ([(1, ustr ''Methods'', 1, 1)], 842, 50, 12)"
proof -
  have s: "utils_font_sizes doc_hyphen = [14, 12, 12]"
    by (simp add: utils_font_sizes_def doc_hyphen_def get_lines_def get_spans_def mk_span_def)
  have c: "most_common 2 (Counter [14, 12, 12 :: rat]) = [(12, 2), (14, 1)]"
    by (simp add: most_common_def Counter_def)
  have r: "py_round 12 = 12" by (simp add: py_round_def)
  have m: "utils_get_main_font doc_hyphen = Inr 12"
    unfolding utils_get_main_font_def Let_def s c by (simp add: r)
  have t: "utils_get_toc doc_hyphen = [(1, ustr ''Methods'', 1, 1)]"
    by (simp add: utils_get_toc_def doc_hyphen_def page_count_def)
  show ?thesis
    unfolding utils_info_extract_def Let_def m t by (simp add: doc_hyphen_def)
qed

lemma doc_hyphen_lines:
  "utils_lines ucd_ascii 12 [(PStr (ustr ''methods''), [])]
     [\<lparr> l_spans = Some [mk_span ''Methods'' 14] \<rparr>, \<lparr> l_spans = Some [mk_span ''exam-'' 12] \<rparr>,
      \<lparr> l_spans = Some [mk_span ''ple'' 12] \<rparr>] ([], [])
   = Inr (ustr ''methods'', ustr '' exam-ple'')"
proof -
  have l1: "utils_line ucd_ascii 12 [(PStr (ustr ''methods''), [])]
              \<lparr> l_spans = Some [mk_span ''Methods'' 14] \<rparr> ([], []) = Inr (Next (ustr ''methods'', []))"
    by (simp add: utils_line_def get_spans_def mk_span_def py_lower_def is_ascii_def ascii_lower_def ustr_def)
  have r: "py_round 12 = 12" by (simp add: py_round_def)
  have nf: "\<And>t. t = ustr ''exam-'' \<or> t = ustr ''ple'' \<Longrightarrow>
      \<not> re_match (fig_caption ucd_ascii) t \<and> \<not> re_match (table_caption ucd_ascii) t"
    by (auto simp: fig_caption_def table_caption_def re_eval cls_eval)
  have l2: "utils_line ucd_ascii 12 [(PStr (ustr ''methods''), [])]
              \<lparr> l_spans = Some [mk_span ''exam-'' 12] \<rparr> (ustr ''methods'', [])
            = Inr (Next (ustr ''methods'', ustr '' exam-''))"
    using nf[of "ustr ''exam-''"]
    by (simp add: utils_line_def get_spans_def mk_span_def lower_is_def utils_span_def repair_def r)
       (simp add: py_lower_def is_ascii_def ascii_lower_def ustr_def)
  have l3: "utils_line ucd_ascii 12 [(PStr (ustr ''methods''), [])]
              \<lparr> l_spans = Some [mk_span ''ple'' 12] \<rparr> (ustr ''methods'', ustr '' exam-'')
            = Inr (Next (ustr ''methods'', ustr '' exam-ple''))"
    using nf[of "ustr ''ple''"]
    by (simp add: utils_line_def get_spans_def mk_span_def lower_is_def utils_span_def repair_def r)
       (simp add: py_lower_def is_ascii_def ascii_lower_def ustr_def)
  show ?thesis by (simp add: l1 l2 l3)
qed

text \<open>
  Claim C5 as stated fails: for \<open>doc_hyphen\<close> and the section \<open>methods\<close>,
  \<open>text_extract\<close> returns \<open>exam-ple\<close> under the key, not \<open>example\<close>. On ASCII text
  no function consults the character database, here \<open>ucd_ascii\<close>.
\<close>

theorem hyphenated_word_counterexample:
  "utils_text_extract ucd_ascii doc_hyphen [(PStr (ustr ''methods''), [])]
     = Inr [(ustr ''methods'', ustr ''exam-ple'')] \<and>
   ustr ''exam-ple'' \<noteq> ustr ''example''"
proof -
  have b: "utils_block ucd_ascii 842 50 12 [(PStr (ustr ''methods''), [])]
             \<lparr> b_type = 0, b_bbox = (72, 100, 500, 160),
               b_lines = Some [\<lparr> l_spans = Some [mk_span ''Methods'' 14] \<rparr>,
                               \<lparr> l_spans = Some [mk_span ''exam-'' 12] \<rparr>,
                               \<lparr> l_spans = Some [mk_span ''ple'' 12] \<rparr>] \<rparr> ([], [], [])
           = Inr ([(ustr ''methods'', ustr ''exam-ple'')], ustr ''methods'', ustr ''exam-ple'')"
    unfolding utils_block_def Let_def
    by (simp add: get_lines_def doc_hyphen_lines post_exam_ple del: utils_lines.simps)
       (simp add: ustr_def)
  have "utils_text_extract ucd_ascii doc_hyphen [(PStr (ustr ''methods''), [])]
     = Inr [(ustr ''methods'', ustr ''exam-ple'')]"
    unfolding utils_text_extract_def Let_def doc_hyphen_info
    by (simp add: doc_hyphen_def b)
  then show ?thesis by (simp add: ustr_def)
qed

end
